theory Spec2Isabelle
  imports Main "HOL-Library.Sublist" "HOL-Library.Multiset"
begin

section \<open>Data model\<close>

text \<open>
  The plugin (\<^verbatim>\<open>src/lib/index.js\<close>) rewrites webpack's asset table
  (\<^verbatim>\<open>compilation.assets\<close>, an object from asset names to Source objects) and the
  file list of every chunk (\<^verbatim>\<open>chunk.files\<close>, an array of asset names).

  A Source object is modelled by its shape. \<open>Source\<close> is an object supplied by the
  pipeline: the text \<^verbatim>\<open>source()\<close> returns and whatever else the object carries (a
  source map). \<open>RawSource\<close> is \<^verbatim>\<open>new RawSource(content)\<close>. \<open>Part\<close> is the
  RawSource that \<^verbatim>\<open>file\<close> builds for one segment, to which it adds the
  properties \<^verbatim>\<open>name\<close> and \<^verbatim>\<open>fullname\<close>.
\<close>

datatype error = TypeError

record part =
  rawValue :: string
  name :: string
  fullname :: string

datatype source =
    Source string "string option"
  | RawSource string
  | Part part

text \<open>\<^verbatim>\<open>asset.source()\<close>; on a RawSource it is the field \<^verbatim>\<open>_value\<close>.\<close>

fun source_of :: "source \<Rightarrow> string" where
  "source_of (Source s m) = s"
| "source_of (RawSource s) = s"
| "source_of (Part p) = rawValue p"

type_synonym assets = "string \<rightharpoonup> source"

record chunk =
  files :: "string list"

text \<open>
  Of the compilation the plugin reads \<^verbatim>\<open>assets\<close> and
  \<^verbatim>\<open>options.output.publicPath\<close>, which may be undefined.
\<close>

record compilation =
  assets :: assets
  publicPath :: "string option"

text \<open>
  The object \<^verbatim>\<open>file\<close> returns for one stylesheet asset; its property
  \<^verbatim>\<open>file\<close> is the field \<open>entry_file\<close>.
\<close>

record entry =
  dirname :: string
  entry_file :: string
  chunks :: "part list"

text \<open>
  The three functions the plugin imports from other packages are parameters of the
  model: \<^verbatim>\<open>split\<close> of css-split (here the list of the \<^verbatim>\<open>content\<close> fields of
  the parts it returns), \<^verbatim>\<open>interpolateName\<close> of loader-utils (applied to the
  context, the resource path, the template and the content) and \<^verbatim>\<open>path.dirname\<close>.
\<close>

record externals =
  ext_split :: "string \<Rightarrow> nat \<Rightarrow> string list"
  ext_interpolateName :: "string \<Rightarrow> string \<Rightarrow> string \<Rightarrow> string \<Rightarrow> string"
  ext_dirname :: "string \<Rightarrow> string"

text \<open>
  A name function takes the properties \<^verbatim>\<open>file\<close>, \<^verbatim>\<open>content\<close> and
  \<^verbatim>\<open>index\<close> of its argument object; \<^verbatim>\<open>index\<close> is undefined (\<open>None\<close>) when the
  object has no such property. The result \<open>None\<close> is the value \<^verbatim>\<open>false\<close>.
\<close>

type_synonym name_fn = "string \<Rightarrow> string \<Rightarrow> nat option \<Rightarrow> string option"

text \<open>
  The values a caller may pass for \<^verbatim>\<open>imports\<close>, by their \<^verbatim>\<open>typeof\<close>; only a
  string and a boolean carry a content the plugin reads. The value \<^verbatim>\<open>undefined\<close> is
  not among them: the constructor cannot tell it from a missing property.
\<close>

datatype js_value =
    JString string
  | JBoolean bool
  | JNumber
  | JBigInt
  | JFunction
  | JObject
  | JNull
  | JSymbol

fun typeof :: "js_value \<Rightarrow> string" where
  "typeof (JString s) = ''string''"
| "typeof (JBoolean b) = ''boolean''"
| "typeof JNumber = ''number''"
| "typeof JBigInt = ''bigint''"
| "typeof JFunction = ''function''"
| "typeof JObject = ''object''"
| "typeof JNull = ''object''"
| "typeof JSymbol = ''symbol''"

text \<open>
  The object given to the constructor. A property that is missing or undefined is
  \<open>None\<close>, and the destructuring pattern of the constructor then takes its default.
  \<^verbatim>\<open>preserve\<close> has no default and is only tested for truth.
\<close>

record plugin_args =
  arg_size :: "nat option"
  arg_imports :: "js_value option"
  arg_filename :: "string option"
  arg_preserve :: bool
  arg_defer :: "bool option"

text \<open>\<^verbatim>\<open>this.options\<close>, each property under the prefix \<open>opt_\<close>.\<close>

record options =
  opt_size :: nat
  opt_imports :: name_fn
  opt_filename :: "string \<Rightarrow> string \<Rightarrow> nat option \<Rightarrow> string"
  opt_preserve :: bool
  opt_defer :: bool

section \<open>Helpers\<close>

text \<open>\<^verbatim>\<open>/\.css$/.test(name)\<close>: the last four characters of the name are \<^verbatim>\<open>.css\<close>.\<close>

definition isCSS :: "string \<Rightarrow> bool" where
  "isCSS nm = (drop (length nm - 4) nm = ''.css'')"

text \<open>\<^verbatim>\<open>str.replace(/\/$/, '')\<close>: one slash at the very end is removed.\<close>

definition strip :: "string \<Rightarrow> string" where
  "strip str = (if str \<noteq> [] \<and> last str = CHR ''/'' then butlast str else str)"

text \<open>
  The decimal digits of a number: how \<^verbatim>\<open>replace\<close> renders the integer
  \<^verbatim>\<open>index + 1\<close> that it is given as replacement.
\<close>

definition digit :: "nat \<Rightarrow> char" where
  "digit d = char_of (48 + d)"

fun string_of_nat :: "nat \<Rightarrow> string" where
  "string_of_nat n =
     (if n < 10 then [digit n] else string_of_nat (n div 10) @ [digit (n mod 10)])"

text \<open>
  \<^verbatim>\<open>res.replace(/\[part\]/g, r)\<close>: every occurrence of \<^verbatim>\<open>[part]\<close>, found from
  left to right, becomes \<open>r\<close>.
\<close>

fun replacePart :: "string \<Rightarrow> string \<Rightarrow> string" where
  "replacePart r [] = []"
| "replacePart r (c # cs) =
     (if prefix ''[part]'' (c # cs) then r @ replacePart r (drop 5 cs)
      else c # replacePart r cs)"

text \<open>
  \<^verbatim>\<open>nameInterpolator(input)\<close>. The replacement is \<^verbatim>\<open>index + 1\<close>, which is
  \<^verbatim>\<open>NaN\<close> when \<^verbatim>\<open>index\<close> is undefined.
\<close>

definition nameInterpolator ::
  "externals \<Rightarrow> string \<Rightarrow> string \<Rightarrow> string \<Rightarrow> nat option \<Rightarrow> string" where
  "nameInterpolator ext input fl content index =
     replacePart (case index of Some i \<Rightarrow> string_of_nat (i + 1) | None \<Rightarrow> ''NaN'')
       (ext_interpolateName ext ''/'' (''/'' @ fl) input content)"

text \<open>\<^verbatim>\<open>normalizeImports(input, preserve)\<close>, a switch on \<^verbatim>\<open>typeof input\<close>.\<close>

definition normalizeImports :: "externals \<Rightarrow> js_value \<Rightarrow> bool \<Rightarrow> error + name_fn" where
  "normalizeImports ext input prsv =
     (if typeof input = ''string'' then
        (case input of
           JString s \<Rightarrow> Inr (\<lambda>fl content index. Some (nameInterpolator ext s fl content index))
         | _ \<Rightarrow> Inl TypeError)
      else if typeof input = ''boolean'' then
        (case input of
           JBoolean b \<Rightarrow>
             if b then
               (if prsv then
                  Inr (\<lambda>fl content index.
                         Some (nameInterpolator ext ''[name]-split.[ext]'' fl content index))
                else Inr (\<lambda>fl content index. Some fl))
             else Inr (\<lambda>fl content index. None)
         | _ \<Rightarrow> Inl TypeError)
      else Inl TypeError)"

text \<open>
  \<^verbatim>\<open>dirname && dirname !== '.' ? `${dirname}/${name}` : name\<close>, the expression
  \<^verbatim>\<open>file\<close> uses for a part and \<^verbatim>\<open>chunksMapping\<close> for the imports file.
\<close>

definition withDirname :: "string \<Rightarrow> string \<Rightarrow> string" where
  "withDirname dn nm = (if dn \<noteq> [] \<and> dn \<noteq> ''.'' then dn @ ''/'' @ nm else nm)"

text \<open>\<^verbatim>\<open>Array.prototype.join\<close> on strings.\<close>

fun join :: "string \<Rightarrow> string list \<Rightarrow> string" where
  "join sep [] = []"
| "join sep [x] = x"
| "join sep (x # y # ys) = x @ sep @ join sep (y # ys)"

text \<open>\<^verbatim>\<open>Array.prototype.indexOf\<close>: the first position of the element, or -1.\<close>

fun indexOf :: "'a list \<Rightarrow> 'a \<Rightarrow> int" where
  "indexOf [] x = - 1"
| "indexOf (y # ys) x =
     (if y = x then 0 else (let i = indexOf ys x in if i < 0 then - 1 else i + 1))"

text \<open>
  \<^verbatim>\<open>Array.prototype.splice(start, deleteCount)\<close>, the array it leaves behind: a
  negative start counts from the end, so \<^verbatim>\<open>splice(-1, 1)\<close> removes the last element.
\<close>

definition splice_js :: "'a list \<Rightarrow> int \<Rightarrow> nat \<Rightarrow> 'a list" where
  "splice_js xs start deleteCount =
     (let len = int (length xs);
          st = (if start < 0 then max (len + start) 0 else min start len)
      in take (nat st) xs @ drop (nat st + deleteCount) xs)"

section \<open>The plugin\<close>

text \<open>The constructor: defaults, then \<^verbatim>\<open>normalizeImports\<close>, which may throw.\<close>

definition plugin_constructor :: "externals \<Rightarrow> plugin_args \<Rightarrow> error + options" where
  "plugin_constructor ext args =
     (let sz = (case arg_size args of None \<Rightarrow> 4000 | Some n \<Rightarrow> n);
          imp = (case arg_imports args of None \<Rightarrow> JBoolean False | Some v \<Rightarrow> v);
          fname = (case arg_filename args of None \<Rightarrow> ''[name]-[part].[ext]'' | Some t \<Rightarrow> t);
          dfr = (case arg_defer args of None \<Rightarrow> False | Some d \<Rightarrow> d)
      in case normalizeImports ext imp (arg_preserve args) of
           Inl e \<Rightarrow> Inl e
         | Inr f \<Rightarrow>
             Inr \<lparr>opt_size = sz, opt_imports = f, opt_filename = nameInterpolator ext fname,
                  opt_preserve = arg_preserve args, opt_defer = dfr\<rparr>)"

text \<open>
  \<^verbatim>\<open>file(key, asset)\<close>. The asset is \<^verbatim>\<open>assets[name]\<close>, undefined when the table
  has no such name; \<^verbatim>\<open>asset.source()\<close> then throws a TypeError. Part \<open>i\<close> of the
  split gets the name \<^verbatim>\<open>getName(i)\<close> and the full name under the directory of
  the key.
\<close>

definition plugin_file :: "externals \<Rightarrow> options \<Rightarrow> string \<Rightarrow> source option \<Rightarrow> error + entry" where
  "plugin_file ext opts key asset =
     (case asset of
        None \<Rightarrow> Inl TypeError
      | Some a \<Rightarrow>
          (let input_source = source_of a;
               dn = ext_dirname ext key;
               getName = (\<lambda>i. opt_filename opts key input_source (Some i))
           in Inr \<lparr>dirname = dn, entry_file = key,
                   chunks = map (\<lambda>(i, content).
                                   \<lparr>rawValue = content, name = getName i,
                                    fullname = withDirname dn (getName i)\<rparr>)
                              (enumerate 0 (ext_split ext input_source (opt_size opts)))\<rparr>))"

text \<open>
  The two template literals of the import statement: \<^verbatim>\<open>@import "./${file.name}";\<close>
  and \<^verbatim>\<open>@import "${publicPath}/${file.fullname}";\<close>.
\<close>

definition relativeImport :: "part \<Rightarrow> string" where
  "relativeImport p = ''@import '' @ [CHR 0x22] @ ''./'' @ name p @ [CHR 0x22] @ '';''"

definition publicImport :: "string \<Rightarrow> part \<Rightarrow> string" where
  "publicImport pp p = ''@import '' @ [CHR 0x22] @ pp @ ''/'' @ fullname p @ [CHR 0x22] @ '';''"

text \<open>
  One import statement of the imports file, for the already stripped public path:
  the callback of \<^verbatim>\<open>entry.chunks.map\<close>.
\<close>

definition importStatement :: "string \<Rightarrow> part \<Rightarrow> string" where
  "importStatement pp p =
     (if prefix ''.'' pp then relativeImport p else publicImport pp p)"

text \<open>
  \<^verbatim>\<open>entry.chunks.forEach\<close> of the split case: every part is stored in the asset
  table under its full name, which is pushed onto the file list of the chunk.
\<close>

fun injectFiles :: "part list \<Rightarrow> assets \<times> string list \<Rightarrow> assets \<times> string list" where
  "injectFiles [] st = st"
| "injectFiles (p # ps) (a, fs) = injectFiles ps (a(fullname p \<mapsto> Part p), fs @ [fullname p])"

text \<open>
  The variable \<^verbatim>\<open>importsFile\<close> of the body of \<^verbatim>\<open>entries.forEach\<close>: the only
  part when there is exactly one, and otherwise a new RawSource whose content is the
  import statements of the parts, joined by newlines.
\<close>

definition importsFile :: "string \<Rightarrow> entry \<Rightarrow> source" where
  "importsFile pp e =
     (if length (chunks e) = 1 then Part (chunks e ! 0)
      else RawSource (join [CHR 0x0A] (map (importStatement pp) (chunks e))))"

text \<open>
  The second block of the body of \<^verbatim>\<open>entries.forEach\<close>: when the asset was split
  and is not preserved, its name is spliced out of the file list, at the position
  \<^verbatim>\<open>indexOf\<close> gives, and deleted from the asset table.
\<close>

definition removeOriginal ::
  "options \<Rightarrow> entry \<Rightarrow> assets \<times> string list \<Rightarrow> assets \<times> string list" where
  "removeOriginal opts e st =
     (if length (chunks e) > 1 \<and> \<not> opt_preserve opts then
        (case st of (a, fs) \<Rightarrow>
           (a(entry_file e := None), splice_js fs (indexOf fs (entry_file e)) 1))
      else st)"

text \<open>
  The third block: the imports function gets the entry with the content of the
  imports file, an object without \<^verbatim>\<open>index\<close>. Its result is used when it is truthy,
  which a non-empty string is: the imports file is stored under that name, behind
  the directory of the entry, and the name is pushed onto the file list.
\<close>

definition storeImports ::
  "options \<Rightarrow> string \<Rightarrow> entry \<Rightarrow> assets \<times> string list \<Rightarrow> assets \<times> string list" where
  "storeImports opts pp e st =
     (case opt_imports opts (entry_file e) (source_of (importsFile pp e)) None of
        None \<Rightarrow> st
      | Some nm \<Rightarrow>
          if nm = [] then st
          else (case st of (a, fs) \<Rightarrow>
                  (a(withDirname (dirname e) nm \<mapsto> importsFile pp e),
                   fs @ [withDirname (dirname e) nm])))"

text \<open>
  The body of \<^verbatim>\<open>entries.forEach\<close>, on the asset table and the file list of the
  chunk: the parts are injected unless there is exactly one, then the two blocks
  above.
\<close>

definition processEntry ::
  "options \<Rightarrow> string \<Rightarrow> entry \<Rightarrow> assets \<times> string list \<Rightarrow> assets \<times> string list" where
  "processEntry opts pp e st =
     storeImports opts pp e
       (removeOriginal opts e
          (if length (chunks e) = 1 then st else injectFiles (chunks e) st))"

text \<open>
  \<^verbatim>\<open>input.map((name) => this.file(name, assets[name]))\<close>: all entries of a chunk
  are computed, in order, before any of them is processed; the first missing asset
  throws.
\<close>

fun mapFile :: "externals \<Rightarrow> options \<Rightarrow> assets \<Rightarrow> string list \<Rightarrow> error + entry list" where
  "mapFile ext opts a [] = Inr []"
| "mapFile ext opts a (nm # nms) =
     (case plugin_file ext opts nm (a nm) of
        Inl err \<Rightarrow> Inl err
      | Inr e \<Rightarrow>
          (case mapFile ext opts a nms of
             Inl err \<Rightarrow> Inl err
           | Inr es \<Rightarrow> Inr (e # es)))"

text \<open>The callback of \<^verbatim>\<open>chunks.map\<close>, for one chunk.\<close>

definition processChunk ::
  "externals \<Rightarrow> options \<Rightarrow> string \<Rightarrow> assets \<Rightarrow> chunk \<Rightarrow> error + (assets \<times> chunk)" where
  "processChunk ext opts pp a c =
     (let input = filter isCSS (files c)
      in case mapFile ext opts a input of
           Inl err \<Rightarrow> Inl err
         | Inr entries \<Rightarrow>
             (case fold (processEntry opts pp) entries (a, files c) of
                (a', fs) \<Rightarrow> Inr (a', c\<lparr>files := fs\<rparr>)))"

fun mapChunks ::
  "externals \<Rightarrow> options \<Rightarrow> string \<Rightarrow> assets \<Rightarrow> chunk list \<Rightarrow> error + (assets \<times> chunk list)" where
  "mapChunks ext opts pp a [] = Inr (a, [])"
| "mapChunks ext opts pp a (c # cs) =
     (case processChunk ext opts pp a c of
        Inl err \<Rightarrow> Inl err
      | Inr (a', c') \<Rightarrow>
          (case mapChunks ext opts pp a' cs of
             Inl err \<Rightarrow> Inl err
           | Inr (a'', cs') \<Rightarrow> Inr (a'', c' # cs')))"

text \<open>
  \<^verbatim>\<open>strip(compilation.options.output.publicPath || './')\<close>: an undefined or empty
  public path is falsy and gives \<^verbatim>\<open>./\<close>.
\<close>

definition outputPublicPath :: "compilation \<Rightarrow> string" where
  "outputPublicPath cpl =
     strip (case publicPath cpl of
              None \<Rightarrow> ''./''
            | Some s \<Rightarrow> if s = [] then ''./'' else s)"

text \<open>
  \<^verbatim>\<open>chunksMapping(compilation, chunks, done)\<close>. The result \<open>Inr\<close> is the state in
  which \<^verbatim>\<open>done()\<close> is called; \<open>Inl\<close> is an exception, after which it is not.
\<close>

definition chunksMapping ::
  "externals \<Rightarrow> options \<Rightarrow> compilation \<Rightarrow> chunk list \<Rightarrow> error + (compilation \<times> chunk list)" where
  "chunksMapping ext opts cpl cs =
     (let pp = outputPublicPath cpl
      in case mapChunks ext opts pp (assets cpl) cs of
           Inl err \<Rightarrow> Inl err
         | Inr (a, cs') \<Rightarrow> Inr (cpl\<lparr>assets := a\<rparr>, cs'))"

text \<open>
  A build: the plugin is constructed from its arguments and the pipeline then calls
  \<^verbatim>\<open>chunksMapping\<close> from the hook that \<^verbatim>\<open>apply\<close> registered.
\<close>

definition build ::
  "externals \<Rightarrow> plugin_args \<Rightarrow> compilation \<Rightarrow> chunk list \<Rightarrow> error + (compilation \<times> chunk list)" where
  "build ext args cpl cs =
     (case plugin_constructor ext args of
        Inl err \<Rightarrow> Inl err
      | Inr opts \<Rightarrow> chunksMapping ext opts cpl cs)"

section \<open>Derived notions\<close>

text \<open>
  The entry \<^verbatim>\<open>file\<close> returns for a key whose asset has the text \<open>src\<close>.
\<close>

definition entryFor :: "externals \<Rightarrow> options \<Rightarrow> string \<Rightarrow> string \<Rightarrow> entry" where
  "entryFor ext opts key src =
     \<lparr>dirname = ext_dirname ext key, entry_file = key,
      chunks = map (\<lambda>(i, content).
                      \<lparr>rawValue = content, name = opt_filename opts key src (Some i),
                       fullname = withDirname (ext_dirname ext key)
                                    (opt_filename opts key src (Some i))\<rparr>)
                 (enumerate 0 (ext_split ext src (opt_size opts)))\<rparr>"

text \<open>
  The name under which the body of \<^verbatim>\<open>entries.forEach\<close> stores the imports file, if
  it stores it.
\<close>

definition importsTarget :: "options \<Rightarrow> string \<Rightarrow> entry \<Rightarrow> string option" where
  "importsTarget opts pp e =
     (case opt_imports opts (entry_file e) (source_of (importsFile pp e)) None of
        None \<Rightarrow> None
      | Some nm \<Rightarrow> if nm = [] then None else Some (withDirname (dirname e) nm))"

text \<open>
  \<open>splitPart ext opts k v\<close>: the object \<open>v\<close> is a part of the entry of some stylesheet
  key and some text, of a split into a number of segments other than one, and \<open>k\<close> is
  the full name of that part.
\<close>

definition splitPart :: "externals \<Rightarrow> options \<Rightarrow> string \<Rightarrow> source \<Rightarrow> bool" where
  "splitPart ext opts k v =
     (\<exists>key src p. isCSS key \<and> length (chunks (entryFor ext opts key src)) \<noteq> 1 \<and>
                  p \<in> set (chunks (entryFor ext opts key src)) \<and> v = Part p \<and> k = fullname p)"

text \<open>
  \<open>notGenerated ext opts k\<close>: the name \<open>k\<close> is not the full name of a part of any
  stylesheet, and not the name under which the imports file of any stylesheet is
  stored.
\<close>

definition notGenerated :: "externals \<Rightarrow> options \<Rightarrow> string \<Rightarrow> bool" where
  "notGenerated ext opts k =
     ((\<forall>key src i. isCSS key \<longrightarrow> i < length (ext_split ext src (opt_size opts)) \<longrightarrow>
         withDirname (ext_dirname ext key) (opt_filename opts key src (Some i)) \<noteq> k) \<and>
      (\<forall>key content nm. isCSS key \<longrightarrow> opt_imports opts key content None = Some nm \<longrightarrow>
         nm \<noteq> [] \<longrightarrow> withDirname (ext_dirname ext key) nm \<noteq> k))"

text \<open>
  The names one entry adds to the file list: the full names of its parts when it is
  split, and the name of its imports file when it stores one.
\<close>

definition generatedNames :: "options \<Rightarrow> string \<Rightarrow> entry \<Rightarrow> string list" where
  "generatedNames opts pp e =
     (if length (chunks e) = 1 then [] else map fullname (chunks e)) @
     (case importsTarget opts pp e of None \<Rightarrow> [] | Some t \<Rightarrow> [t])"

text \<open>
  The number a string of decimal digits denotes; it is used to say which text
  \<open>string_of_nat\<close> gives.
\<close>

definition nat_of_string :: "string \<Rightarrow> nat" where
  "nat_of_string s = foldl (\<lambda>acc c. 10 * acc + (of_char c - 48)) 0 s"

section \<open>The splitter\<close>

text \<open>
  Modelled from the spec: the function \<^verbatim>\<open>split\<close> of the package css-split, which
  the plugin calls and whose code is not part of the sources. The spec (section 4.1)
  describes it as one linear scan. A rule is a top-level block in braces, or a
  top-level statement ended by a semicolon outside any block; the scan tracks the
  nesting depth and does not count braces inside string or comment literals. An
  unmatched closing brace is taken as a boundary. The text between two rules belongs
  to the rule that follows it.
\<close>

datatype scan_mode = Code | InString char | InComment

text \<open>
  \<open>scanRules m d acc cs\<close> scans \<open>cs\<close> in mode \<open>m\<close> at depth \<open>d\<close>, where \<open>acc\<close> holds
  the text of the current rule so far, reversed. It returns the rules in order, each
  with the text before it, and the text left after the last rule.
\<close>

fun scanRules :: "scan_mode \<Rightarrow> nat \<Rightarrow> string \<Rightarrow> string \<Rightarrow> string list \<times> string" where
  "scanRules m d acc [] = ([], rev acc)"
| "scanRules Code d acc (c # cs) =
     (if c = CHR ''{'' then scanRules Code (Suc d) (c # acc) cs
      else if c = CHR ''}'' then
        (if d \<le> 1 then (case scanRules Code 0 [] cs of (rs, t) \<Rightarrow> (rev (c # acc) # rs, t))
         else scanRules Code (d - 1) (c # acc) cs)
      else if c = CHR '';'' \<and> d = 0 then
        (case scanRules Code 0 [] cs of (rs, t) \<Rightarrow> (rev (c # acc) # rs, t))
      else if c = CHR 0x22 \<or> c = CHR 0x27 then scanRules (InString c) d (c # acc) cs
      else if c = CHR ''/'' \<and> cs \<noteq> [] \<and> hd cs = CHR ''*'' then
        scanRules InComment d (CHR ''*'' # c # acc) (tl cs)
      else scanRules Code d (c # acc) cs)"
| "scanRules (InString q) d acc (c # cs) =
     (if c = CHR 0x5C \<and> cs \<noteq> [] then scanRules (InString q) d (hd cs # c # acc) (tl cs)
      else if c = q then scanRules Code d (c # acc) cs
      else scanRules (InString q) d (c # acc) cs)"
| "scanRules InComment d acc (c # cs) =
     (if c = CHR ''*'' \<and> cs \<noteq> [] \<and> hd cs = CHR ''/'' then
        scanRules Code d (CHR ''/'' # c # acc) (tl cs)
      else scanRules InComment d (c # acc) cs)"

text \<open>
  \<open>packRules L n cur rs t\<close> accumulates the rules \<open>rs\<close> into segments: \<open>cur\<close> is the
  current segment and \<open>n\<close> its rule count. When the count has reached \<open>L\<close> the segment
  is closed and the next rule begins a new one. The text \<open>t\<close> after the last rule stays
  in the last segment, so that a text of at most \<open>L\<close> rules is one segment.
\<close>

fun packRules :: "nat \<Rightarrow> nat \<Rightarrow> string \<Rightarrow> string list \<Rightarrow> string \<Rightarrow> string list" where
  "packRules L n cur [] t = [cur @ t]"
| "packRules L n cur (r # rs) t =
     (if n < L then packRules L (Suc n) (cur @ r) rs t
      else cur # packRules L 1 r rs t)"

definition spec_split :: "string \<Rightarrow> nat \<Rightarrow> string list" where
  "spec_split text maxRuleCount =
     (case scanRules Code 0 [] text of (rs, t) \<Rightarrow> packRules maxRuleCount 0 [] rs t)"

section \<open>Example instances\<close>

text \<open>
  Concrete values for the three external functions, used where a statement is
  evaluated on an example build. The build has one stylesheet, called
  \<^verbatim>\<open>styles.css\<close>, in some directory. \<open>ex_interpolateName\<close> gives the names
  loader-utils derives for that resource from the two default templates; the only
  other templates used below have no placeholder, and such a template is returned as
  it is. \<open>ex_split\<close> gives the segments of the three
  rule stylesheet \<^verbatim>\<open>a{}b{}c{}\<close> under the limit 2 and leaves any other text in one
  segment. \<open>ex_dirname\<close> is the text before the last slash of a relative path, and
  \<^verbatim>\<open>.\<close> when there is no slash.
\<close>

definition ex_split :: "string \<Rightarrow> nat \<Rightarrow> string list" where
  "ex_split src n = (if src = ''a{}b{}c{}'' \<and> n = 2 then [''a{}b{}'', ''c{}''] else [src])"

definition ex_interpolateName :: "string \<Rightarrow> string \<Rightarrow> string \<Rightarrow> string \<Rightarrow> string" where
  "ex_interpolateName ctx resourcePath template content =
     (if template = ''[name]-[part].[ext]'' then ''styles-[part].css''
      else if template = ''[name]-split.[ext]'' then ''styles-split.css''
      else template)"

definition ex_dirname :: "string \<Rightarrow> string" where
  "ex_dirname p =
     (if CHR ''/'' \<in> set p then rev (tl (dropWhile (\<lambda>c. c \<noteq> CHR ''/'') (rev p))) else ''.'')"

definition ex_ext :: externals where
  "ex_ext = \<lparr>ext_split = ex_split, ext_interpolateName = ex_interpolateName,
             ext_dirname = ex_dirname\<rparr>"

definition ex_args :: plugin_args where
  "ex_args = \<lparr>arg_size = Some 2, arg_imports = None, arg_filename = None,
              arg_preserve = False, arg_defer = None\<rparr>"

text \<open>
  The example build: a script and the stylesheet, both in the one chunk, and the
  public path \<^verbatim>\<open>/foo\<close> of the repository's test configuration.
\<close>

definition ex_assets :: assets where
  "ex_assets = [''bundle.js'' \<mapsto> Source ''js'' None,
                ''styles.css'' \<mapsto> Source ''a{}b{}c{}'' (Some ''map'')]"

definition ex_compilation :: compilation where
  "ex_compilation = \<lparr>assets = ex_assets, publicPath = Some ''/foo''\<rparr>"

definition ex_chunks :: "chunk list" where
  "ex_chunks = [\<lparr>files = [''bundle.js'', ''styles.css'']\<rparr>]"

text \<open>The plugin of the example arguments with the limit 10 and no imports file.\<close>

definition ex_options :: options where
  "ex_options =
     \<lparr>opt_size = 10, opt_imports = (\<lambda>fl content index. None),
      opt_filename = nameInterpolator ex_ext ''[name]-[part].[ext]'',
      opt_preserve = False, opt_defer = False\<rparr>"

text \<open>
  The entry of the example stylesheet in the directory \<^verbatim>\<open>sub/dir\<close>, under the
  limit 2.
\<close>

definition ex_entry :: entry where
  "ex_entry = entryFor ex_ext (ex_options\<lparr>opt_size := 2\<rparr>) ''sub/dir/styles.css'' ''a{}b{}c{}''"

text \<open>
  A second instance, for a split into more than nine parts: the sheet of twelve
  rules \<^verbatim>\<open>r{}\<close> under the limit 1, one rule in each segment, and the entry of that
  sheet in the directory \<^verbatim>\<open>sub/dir\<close>.
\<close>

definition ex_split12 :: "string \<Rightarrow> nat \<Rightarrow> string list" where
  "ex_split12 src n =
     (if src = concat (replicate 12 ''r{}'') \<and> n = 1 then replicate 12 ''r{}'' else [src])"

definition ex_ext12 :: externals where
  "ex_ext12 = \<lparr>ext_split = ex_split12, ext_interpolateName = ex_interpolateName,
               ext_dirname = ex_dirname\<rparr>"

definition ex_entry12 :: entry where
  "ex_entry12 =
     entryFor ex_ext12 (ex_options\<lparr>opt_size := 1\<rparr>) ''sub/dir/styles.css''
       (concat (replicate 12 ''r{}''))"

section \<open>Lists and names\<close>

lemma isCSS_iff_suffix: "isCSS nm = suffix ''.css'' nm"
proof
  assume "isCSS nm"
  then have "nm = take (length nm - 4) nm @ ''.css''"
    unfolding isCSS_def by (metis append_take_drop_id)
  then show "suffix ''.css'' nm"
    unfolding suffix_def by blast
next
  assume "suffix ''.css'' nm"
  then obtain stem where "nm = stem @ ''.css''"
    unfolding suffix_def by blast
  then show "isCSS nm"
    by (simp add: isCSS_def)
qed

lemma strip_eq: "strip b = (if suffix ''/'' b then butlast b else b)"
proof (cases b rule: rev_cases)
  case Nil
  then show ?thesis by (simp add: strip_def)
next
  case (snoc ys y)
  then show ?thesis by (auto simp: strip_def suffix_def)
qed

lemma indexOf_notin: "x \<notin> set xs \<Longrightarrow> indexOf xs x = - 1"
  by (induction xs) (auto simp: Let_def)

lemma indexOf_in: "x \<in> set xs \<Longrightarrow> indexOf xs x = int (length (takeWhile (\<lambda>y. y \<noteq> x) xs))"
  by (induction xs) (auto simp: Let_def indexOf_notin)

lemma splice_indexOf_in: "x \<in> set xs \<Longrightarrow> splice_js xs (indexOf xs x) 1 = remove1 x xs"
proof (induction xs)
  case Nil
  then show ?case by simp
next
  case (Cons y ys)
  show ?case
  proof (cases "y = x")
    case True
    then show ?thesis by (simp add: splice_js_def)
  next
    case False
    with Cons have "x \<in> set ys" by simp
    with Cons.IH have "splice_js ys (indexOf ys x) 1 = remove1 x ys" by simp
    with False \<open>x \<in> set ys\<close> show ?thesis
      by (simp add: splice_js_def indexOf_in Let_def min_def nat_add_distrib split: if_splits)
  qed
qed

lemma splice_indexOf_notin: "x \<notin> set xs \<Longrightarrow> splice_js xs (indexOf xs x) 1 = butlast xs"
  by (cases xs rule: rev_cases) (simp_all add: indexOf_notin splice_js_def)

lemma set_splice: "set (splice_js xs i n) \<subseteq> set xs"
  by (auto simp: splice_js_def Let_def dest: in_set_takeD in_set_dropD)

lemma join_lines:
  "xs \<noteq> [] \<Longrightarrow> join sep xs = concat (map (\<lambda>x. x @ sep) (butlast xs)) @ last xs"
  by (induction sep xs rule: join.induct) simp_all

lemma digit_value: "d < 10 \<Longrightarrow> of_char (digit d) = 48 + d"
  by (simp add: digit_def)

lemma digits_text: "map digit [0..<10] = ''0123456789''"
  by code_simp

lemma digit_in_digits: "d < 10 \<Longrightarrow> digit d \<in> set ''0123456789''"
  unfolding digits_text [symmetric] by simp

lemma digit_not_zero:
  assumes "0 < d" and "d < 10"
  shows "digit d \<noteq> CHR ''0''"
proof
  assume "digit d = CHR ''0''"
  then have "(of_char (digit d) :: nat) = of_char CHR ''0''"
    by simp
  with assms show False
    by (simp add: digit_value)
qed

lemma nat_of_string_snoc:
  "nat_of_string (s @ [c]) = 10 * nat_of_string s + (of_char c - 48)"
  by (simp add: nat_of_string_def)

lemma string_of_nat_decimal: "nat_of_string (string_of_nat n) = n"
proof (induction n rule: string_of_nat.induct)
  case (1 n)
  show ?case
  proof (cases "n < 10")
    case True
    then show ?thesis
      by (subst string_of_nat.simps) (simp add: nat_of_string_def digit_value del: string_of_nat.simps)
  next
    case False
    with 1 have "nat_of_string (string_of_nat (n div 10)) = n div 10"
      by (simp del: string_of_nat.simps)
    with False show ?thesis
      by (subst string_of_nat.simps) (simp add: nat_of_string_snoc digit_value del: string_of_nat.simps)
  qed
qed

lemma string_of_nat_digits: "set (string_of_nat n) \<subseteq> set ''0123456789''"
proof (induction n rule: string_of_nat.induct)
  case (1 n)
  show ?case
  proof (cases "n < 10")
    case True
    with digit_in_digits [of n] show ?thesis
      by (subst string_of_nat.simps) (simp del: string_of_nat.simps)
  next
    case False
    with 1 have "set (string_of_nat (n div 10)) \<subseteq> set ''0123456789''"
      by (simp del: string_of_nat.simps)
    with False digit_in_digits [of "n mod 10"] show ?thesis
      by (subst string_of_nat.simps) (simp del: string_of_nat.simps)
  qed
qed

lemma string_of_nat_nonempty: "string_of_nat n \<noteq> []"
  by (subst string_of_nat.simps) (simp del: string_of_nat.simps)

lemma string_of_nat_no_leading_zero: "0 < n \<Longrightarrow> hd (string_of_nat n) \<noteq> CHR ''0''"
proof (induction n rule: string_of_nat.induct)
  case (1 n)
  show ?case
  proof (cases "n < 10")
    case True
    with 1(2) show ?thesis
      by (subst string_of_nat.simps) (simp add: digit_not_zero del: string_of_nat.simps)
  next
    case False
    then have "0 < n div 10"
      by simp
    with 1 False have "hd (string_of_nat (n div 10)) \<noteq> CHR ''0''"
      by (simp del: string_of_nat.simps)
    with False show ?thesis
      by (subst string_of_nat.simps) (simp add: string_of_nat_nonempty del: string_of_nat.simps)
  qed
qed

lemma prefix_before_bracket:
  "prefix xs (p @ CHR ''['' # q) \<Longrightarrow> CHR ''['' \<notin> set xs \<Longrightarrow> prefix xs p"
proof (induction p arbitrary: xs)
  case Nil
  then show ?case
    by (cases xs) simp_all
next
  case (Cons y p)
  show ?case
  proof (cases xs)
    case Nil
    then show ?thesis by simp
  next
    case (Cons x xs')
    with Cons.prems have "x = y" and "prefix xs' (p @ CHR ''['' # q)" and "CHR ''['' \<notin> set xs'"
      by simp_all
    with Cons.IH [of xs'] Cons show ?thesis
      by simp
  qed
qed

lemma prefix_part_append:
  assumes "prefix ''[part]'' (c # p @ ''[part]'' @ q)"
  shows "prefix ''[part]'' (c # p)"
proof -
  note both = assms [unfolded Cons_prefix_Cons]
  from both [THEN conjunct2] have "prefix ''part]'' (p @ CHR ''['' # ''part]'' @ q)"
    by (simp only: append_Cons append_Nil)
  then have "prefix ''part]'' p"
    by (rule prefix_before_bracket) simp
  with both [THEN conjunct1] show ?thesis
    unfolding Cons_prefix_Cons by (rule conjI)
qed

lemma not_sublist_Cons:
  "\<not> sublist xs (c # p) \<Longrightarrow> \<not> prefix xs (c # p) \<and> \<not> sublist xs p"
  by (metis prefix_imp_sublist sublist_Cons_right)

lemma replacePart_none: "\<not> sublist ''[part]'' p \<Longrightarrow> replacePart r p = p"
proof (induction p)
  case Nil
  then show ?case by simp
next
  case (Cons c p)
  from not_sublist_Cons [OF Cons.prems]
  have np: "\<not> prefix ''[part]'' (c # p)" and ns: "\<not> sublist ''[part]'' p"
    by blast+
  from np have "replacePart r (c # p) = c # replacePart r p"
    by (simp only: replacePart.simps if_False)
  with Cons.IH [OF ns] show ?case
    by (simp only:)
qed


lemma replacePart_first:
  "\<not> sublist ''[part]'' p \<Longrightarrow> replacePart r (p @ ''[part]'' @ q) = p @ r @ replacePart r q"
proof (induction p)
  case Nil
  then show ?case by simp
next
  case (Cons c p)
  from not_sublist_Cons [OF Cons.prems]
  have np: "\<not> prefix ''[part]'' (c # p)" and ns: "\<not> sublist ''[part]'' p"
    by blast+
  from np prefix_part_append [of c p q] have "\<not> prefix ''[part]'' (c # p @ ''[part]'' @ q)"
    by blast
  then have "replacePart r (c # p @ ''[part]'' @ q) = c # replacePart r (p @ ''[part]'' @ q)"
    by (simp only: replacePart.simps if_False)
  with Cons.IH [OF ns] show ?case
    by (simp only: append_Cons)
qed

lemma replacePart_join:
  "ps \<noteq> [] \<Longrightarrow> \<forall>p\<in>set ps. \<not> sublist ''[part]'' p \<Longrightarrow>
   replacePart r (join ''[part]'' ps) = join r ps"
proof (induction "''[part]''" ps rule: join.induct)
  case 1
  then show ?case by simp
next
  case (2 x)
  then show ?case by (simp add: replacePart_none)
next
  case (3 x y ys)
  then have "replacePart r (join ''[part]'' (y # ys)) = join r (y # ys)"
    by simp
  moreover from 3 have "\<not> sublist ''[part]'' x"
    by simp
  ultimately show ?case
    using replacePart_first [of x r "join ''[part]'' (y # ys)"] by simp
qed

lemma last_filter_no_later:
  assumes "i < length ps" and "\<forall>j<length ps. i < j \<longrightarrow> f (ps ! j) \<noteq> f (ps ! i)"
  shows "last (filter (\<lambda>p. f p = f (ps ! i)) ps) = ps ! i"
proof -
  from assms(1) have ps: "ps = take i ps @ ps ! i # drop (Suc i) ps"
    by (simp add: id_take_nth_drop)
  have "filter (\<lambda>p. f p = f (ps ! i)) (drop (Suc i) ps) = []"
  proof (rule ccontr)
    assume "filter (\<lambda>p. f p = f (ps ! i)) (drop (Suc i) ps) \<noteq> []"
    then obtain p where "p \<in> set (drop (Suc i) ps)" and p: "f p = f (ps ! i)"
      by (auto simp: filter_empty_conv)
    then obtain k where "k < length (drop (Suc i) ps)" and "drop (Suc i) ps ! k = p"
      by (auto simp: in_set_conv_nth)
    then have "Suc i + k < length ps" and "ps ! (Suc i + k) = p"
      by auto
    with assms(2) p show False
      by auto
  qed
  then have "filter (\<lambda>p. f p = f (ps ! i)) (take i ps @ ps ! i # drop (Suc i) ps) =
      filter (\<lambda>p. f p = f (ps ! i)) (take i ps) @ [ps ! i]"
    by simp
  with ps have "filter (\<lambda>p. f p = f (ps ! i)) ps =
      filter (\<lambda>p. f p = f (ps ! i)) (take i ps) @ [ps ! i]"
    by simp
  then show ?thesis
    by simp
qed

section \<open>One entry\<close>

lemma injectFiles_eq:
  "injectFiles ps (a, fs) =
     (a ++ map_of (rev (map (\<lambda>p. (fullname p, Part p)) ps)), fs @ map fullname ps)"
  by (induction ps arbitrary: a fs) (simp_all add: map_add_def fun_eq_iff split: option.splits)

lemma processEntry_eq:
  "processEntry opts pp e (a, fs) =
     (let n = length (chunks e);
          a1 = (if n = 1 then a
                else a ++ map_of (rev (map (\<lambda>p. (fullname p, Part p)) (chunks e))));
          fs1 = (if n = 1 then fs else fs @ map fullname (chunks e));
          a2 = (if 1 < n \<and> \<not> opt_preserve opts then a1(entry_file e := None) else a1);
          fs2 = (if 1 < n \<and> \<not> opt_preserve opts
                 then splice_js fs1 (indexOf fs1 (entry_file e)) 1 else fs1)
      in case importsTarget opts pp e of
           None \<Rightarrow> (a2, fs2)
         | Some t \<Rightarrow> (a2(t \<mapsto> importsFile pp e), fs2 @ [t]))"
proof (cases "opt_imports opts (entry_file e) (source_of (importsFile pp e)) None")
  case None
  then show ?thesis
    by (cases "length (chunks e) = 1"; cases "opt_preserve opts"; cases "1 < length (chunks e)")
      (simp_all add: processEntry_def storeImports_def removeOriginal_def importsTarget_def
        injectFiles_eq Let_def)
next
  case (Some nm)
  then show ?thesis
    by (cases "length (chunks e) = 1"; cases "opt_preserve opts"; cases "1 < length (chunks e)";
        cases "nm = []")
      (simp_all add: processEntry_def storeImports_def removeOriginal_def importsTarget_def
        injectFiles_eq Let_def)
qed

lemma map_of_parts_None:
  "k \<notin> fullname ` set ps \<Longrightarrow> map_of (rev (map (\<lambda>p. (fullname p, Part p)) ps)) k = None"
  by (simp add: map_of_eq_None_iff image_image)

lemma map_of_parts_Some:
  "map_of (rev (map (\<lambda>p. (fullname p, Part p)) ps)) k = Some v \<Longrightarrow>
   \<exists>p \<in> set ps. fullname p = k \<and> v = Part p"
  by (auto dest!: map_of_SomeD)

lemma processEntry_assets_frame:
  assumes "k \<notin> fullname ` set (chunks e)" and "importsTarget opts pp e \<noteq> Some k"
  shows "fst (processEntry opts pp e (a, fs)) k =
           (if k = entry_file e \<and> 1 < length (chunks e) \<and> \<not> opt_preserve opts then None
            else a k)"
  using assms
  by (auto simp: processEntry_eq Let_def map_add_def map_of_parts_None split: option.splits)

lemma processEntry_files:
  "snd (processEntry opts pp e (a, fs)) =
     (let n = length (chunks e);
          fs1 = (if n = 1 then fs else fs @ map fullname (chunks e));
          fs2 = (if 1 < n \<and> \<not> opt_preserve opts
                 then splice_js fs1 (indexOf fs1 (entry_file e)) 1 else fs1)
      in fs2 @ (case importsTarget opts pp e of None \<Rightarrow> [] | Some t \<Rightarrow> [t]))"
  by (simp add: processEntry_eq Let_def split: option.splits)

lemma plugin_file_Inr:
  "(plugin_file ext opts key asset = Inr e) =
     (\<exists>s. asset = Some s \<and> e = entryFor ext opts key (source_of s))"
  by (auto simp: plugin_file_def entryFor_def Let_def split: option.splits)

lemma entryFor_simps:
  "dirname (entryFor ext opts key src) = ext_dirname ext key"
  "entry_file (entryFor ext opts key src) = key"
  "length (chunks (entryFor ext opts key src)) = length (ext_split ext src (opt_size opts))"
  by (simp_all add: entryFor_def)

lemma entryFor_nth:
  assumes "i < length (ext_split ext src (opt_size opts))"
  shows "chunks (entryFor ext opts key src) ! i =
           \<lparr>rawValue = ext_split ext src (opt_size opts) ! i,
            name = opt_filename opts key src (Some i),
            fullname = withDirname (ext_dirname ext key) (opt_filename opts key src (Some i))\<rparr>"
  using assms by (simp add: entryFor_def nth_enumerate_eq)

lemma entryFor_fullname:
  assumes "p \<in> set (chunks (entryFor ext opts key src))"
  shows "\<exists>i < length (ext_split ext src (opt_size opts)).
           p = \<lparr>rawValue = ext_split ext src (opt_size opts) ! i,
            name = opt_filename opts key src (Some i),
            fullname = withDirname (ext_dirname ext key) (opt_filename opts key src (Some i))\<rparr>"
  using assms by (metis entryFor_nth entryFor_simps(3) in_set_conv_nth)

lemma importsTarget_entryFor:
  assumes "importsTarget opts pp (entryFor ext opts key src) = Some t"
  shows "\<exists>content nm. opt_imports opts key content None = Some nm \<and> nm \<noteq> [] \<and>
           t = withDirname (ext_dirname ext key) nm"
  using assms by (auto simp: importsTarget_def entryFor_simps split: option.splits if_splits)

lemma importsFile_many:
  "length (chunks e) \<noteq> 1 \<Longrightarrow>
   importsFile pp e = RawSource (join [CHR 0x0A] (map (importStatement pp) (chunks e)))"
  by (simp add: importsFile_def)

lemma importStatement_text:
  "importStatement pp p =
     (if prefix ''.'' pp then ''@import '' @ [CHR 0x22] @ ''./'' @ name p @ [CHR 0x22] @ '';''
      else ''@import '' @ [CHR 0x22] @ pp @ ''/'' @ fullname p @ [CHR 0x22] @ '';'')"
  by (simp add: importStatement_def relativeImport_def publicImport_def)

lemma importsFile_lines:
  assumes "1 < length (chunks e)"
  shows "importsFile pp e =
           RawSource (concat (map (\<lambda>t. t @ [CHR 0x0A])
                                (butlast (map (importStatement pp) (chunks e)))) @
                      last (map (importStatement pp) (chunks e)))"
proof -
  from assms have ne: "map (importStatement pp) (chunks e) \<noteq> []"
    and many: "length (chunks e) \<noteq> 1"
    by auto
  show ?thesis
    unfolding importsFile_many [OF many] join_lines [OF ne] by (rule refl)
qed

lemma ex_entry_chunks:
  "chunks ex_entry =
     [\<lparr>rawValue = ''a{}b{}'', name = ''styles-1.css'', fullname = ''sub/dir/styles-1.css''\<rparr>,
      \<lparr>rawValue = ''c{}'', name = ''styles-2.css'', fullname = ''sub/dir/styles-2.css''\<rparr>]"
  by code_simp

lemma map_of_parts_last:
  "map_of (rev (map (\<lambda>p. (fullname p, Part p)) ps)) k =
     (if k \<in> fullname ` set ps then Some (Part (last (filter (\<lambda>p. fullname p = k) ps)))
      else None)"
  by (induction ps rule: rev_induct) auto

lemma splice_original:
  assumes "key \<in> set fs"
  shows "splice_js (fs @ ns) (indexOf (fs @ ns) key) (Suc 0) = remove1 key fs @ ns"
  using splice_indexOf_in [of key "fs @ ns"] assms by (simp add: remove1_append)

lemma processEntry_no_imports_assets:
  assumes "importsTarget opts pp e = None" and "fst (processEntry opts pp e (a, fs)) k = Some v"
  shows "a k = Some v \<or>
         (length (chunks e) \<noteq> 1 \<and> (\<exists>p\<in>set (chunks e). v = Part p \<and> k = fullname p))"
  using assms
  by (auto simp: processEntry_eq Let_def map_add_def dest: map_of_parts_Some
      split: if_splits option.splits)

lemma processEntry_no_imports_files:
  assumes "importsTarget opts pp e = None" and "n \<in> set (snd (processEntry opts pp e (a, fs)))"
  shows "n \<in> set fs \<or> (length (chunks e) \<noteq> 1 \<and> n \<in> fullname ` set (chunks e))"
  using assms set_splice [of "fs @ map fullname (chunks e)" "indexOf (fs @ map fullname (chunks e)) (entry_file e)" 1]
  by (auto simp: processEntry_files Let_def split: if_splits)

section \<open>All chunks\<close>

lemma mapFile_Inr:
  "mapFile ext opts a nms = Inr es \<Longrightarrow>
   list_all2 (\<lambda>nm e. \<exists>s. a nm = Some s \<and> e = entryFor ext opts nm (source_of s)) nms es"
proof (induction nms arbitrary: es)
  case Nil
  then show ?case by simp
next
  case (Cons nm nms)
  then show ?case
    by (auto simp: plugin_file_Inr split: sum.splits)
qed

lemma processChunk_Inr:
  assumes "processChunk ext opts pp a c = Inr (a', c')"
  shows "\<exists>es. list_all2 (\<lambda>nm e. \<exists>s. a nm = Some s \<and> e = entryFor ext opts nm (source_of s))
                 (filter isCSS (files c)) es \<and>
              fold (processEntry opts pp) es (a, files c) = (a', files c')"
  using assms
  by (auto simp: processChunk_def Let_def split: sum.splits prod.splits dest!: mapFile_Inr)

lemma entries_css:
  assumes "list_all2 (\<lambda>nm e. \<exists>s. a nm = Some s \<and> e = entryFor ext opts nm (source_of s))
             (filter isCSS fs) es"
    and "e \<in> set es"
  shows "\<exists>key s. isCSS key \<and> key \<in> set fs \<and> a key = Some s \<and>
           e = entryFor ext opts key (source_of s)"
proof -
  from assms(2) obtain i where i: "i < length es" "es ! i = e"
    by (auto simp: in_set_conv_nth)
  from assms(1) have len: "length (filter isCSS fs) = length es"
    by (rule list_all2_lengthD)
  from assms(1) i have "\<exists>s. a (filter isCSS fs ! i) = Some s \<and>
      e = entryFor ext opts (filter isCSS fs ! i) (source_of s)"
    by (auto dest: list_all2_nthD2)
  moreover from i len have "filter isCSS fs ! i \<in> set (filter isCSS fs)"
    by (metis nth_mem)
  then have "isCSS (filter isCSS fs ! i) \<and> filter isCSS fs ! i \<in> set fs"
    by simp
  ultimately show ?thesis
    by blast
qed

lemma entries_files:
  assumes "list_all2 (\<lambda>nm e. \<exists>s. a nm = Some s \<and> e = entryFor ext opts nm (source_of s))
             nms es"
  shows "map entry_file es = nms"
  using assms by (induction rule: list_all2_induct) (auto simp: entryFor_simps)

lemma fold_processEntry_assets:
  assumes "\<And>e b fs. e \<in> set es \<Longrightarrow> J b \<Longrightarrow> J (fst (processEntry opts pp e (b, fs)))"
    and "J (fst st)"
  shows "J (fst (fold (processEntry opts pp) es st))"
  using assms
proof (induction es arbitrary: st)
  case Nil
  then show ?case by simp
next
  case (Cons e es)
  obtain b fs where st: "st = (b, fs)" by (cases st)
  from Cons.prems st have "J (fst (processEntry opts pp e st))"
    by simp
  with Cons show ?case
    by simp
qed

lemma processChunk_assets:
  assumes run: "processChunk ext opts pp a c = Inr (a', c')"
    and step: "\<And>key src b fs. isCSS key \<Longrightarrow> J b \<Longrightarrow>
                 J (fst (processEntry opts pp (entryFor ext opts key src) (b, fs)))"
    and init: "J a"
  shows "J a'"
proof -
  from processChunk_Inr [OF run] obtain es where
    es: "list_all2 (\<lambda>nm e. \<exists>s. a nm = Some s \<and> e = entryFor ext opts nm (source_of s))
           (filter isCSS (files c)) es"
    and fold: "fold (processEntry opts pp) es (a, files c) = (a', files c')"
    by blast
  have "J (fst (fold (processEntry opts pp) es (a, files c)))"
  proof (rule fold_processEntry_assets)
    fix e b fs
    assume "e \<in> set es" and "J b"
    with entries_css [OF es] step show "J (fst (processEntry opts pp e (b, fs)))"
      by blast
  next
    from init show "J (fst (a, files c))" by simp
  qed
  with fold show ?thesis by simp
qed

lemma mapChunks_assets:
  assumes run: "mapChunks ext opts pp a cs = Inr (a', cs')"
    and step: "\<And>key src b fs. isCSS key \<Longrightarrow> J b \<Longrightarrow>
                 J (fst (processEntry opts pp (entryFor ext opts key src) (b, fs)))"
    and init: "J a"
  shows "J a'"
  using run init
proof (induction cs arbitrary: a cs')
  case Nil
  then show ?case by simp
next
  case (Cons c cs)
  from Cons.prems(1) obtain a1 c1 cs1 where
    c: "processChunk ext opts pp a c = Inr (a1, c1)"
    and rest: "mapChunks ext opts pp a1 cs = Inr (a', cs1)"
    by (auto split: sum.splits prod.splits)
  from processChunk_assets [OF c step Cons.prems(2)] have "J a1" .
  with Cons.IH rest show ?case by blast
qed

lemma mapChunks_nth:
  assumes "mapChunks ext opts pp a cs = Inr (a', cs')" and "j < length cs"
  shows "length cs' = length cs \<and>
         (\<exists>a1 a2. mapChunks ext opts pp a (take j cs) = Inr (a1, take j cs') \<and>
                  processChunk ext opts pp a1 (cs ! j) = Inr (a2, cs' ! j) \<and>
                  mapChunks ext opts pp a2 (drop (Suc j) cs) = Inr (a', drop (Suc j) cs'))"
  using assms
proof (induction cs arbitrary: a cs' j)
  case Nil
  then show ?case by simp
next
  case (Cons c cs)
  from Cons.prems(1) obtain a1 c1 cs1 where
    c: "processChunk ext opts pp a c = Inr (a1, c1)"
    and rest: "mapChunks ext opts pp a1 cs = Inr (a', cs1)"
    and cs': "cs' = c1 # cs1"
    by (auto split: sum.splits prod.splits)
  show ?case
  proof (cases j)
    case 0
    have "length cs1 = length cs"
    proof (cases cs)
      case Nil
      with rest show ?thesis by simp
    next
      case (Cons d ds)
      with Cons.IH [OF rest, of 0] show ?thesis by simp
    qed
    with 0 c rest cs' show ?thesis by simp
  next
    case (Suc i)
    with Cons.prems(2) have "i < length cs" by simp
    from Cons.IH [OF rest this] Suc c cs' show ?thesis
      by auto
  qed
qed

lemma chunksMapping_Inr:
  assumes "chunksMapping ext opts cpl cs = Inr (cpl', cs')"
  shows "mapChunks ext opts (outputPublicPath cpl) (assets cpl) cs = Inr (assets cpl', cs')"
  using assms by (auto simp: chunksMapping_def Let_def split: sum.splits prod.splits)

lemma fold_processEntry_files:
  assumes "\<And>e b fs. e \<in> set es \<Longrightarrow> K fs \<Longrightarrow> K (snd (processEntry opts pp e (b, fs)))"
    and "K (snd st)"
  shows "K (snd (fold (processEntry opts pp) es st))"
  using assms
proof (induction es arbitrary: st)
  case Nil
  then show ?case by simp
next
  case (Cons e es)
  obtain b fs where st: "st = (b, fs)" by (cases st)
  from Cons.prems st have "K (snd (processEntry opts pp e st))"
    by simp
  with Cons show ?case
    by simp
qed

lemma processChunk_files:
  assumes run: "processChunk ext opts pp a c = Inr (a', c')"
    and step: "\<And>key src b fs. isCSS key \<Longrightarrow> K fs \<Longrightarrow>
                 K (snd (processEntry opts pp (entryFor ext opts key src) (b, fs)))"
    and init: "K (files c)"
  shows "K (files c')"
proof -
  from processChunk_Inr [OF run] obtain es where
    es: "list_all2 (\<lambda>nm e. \<exists>s. a nm = Some s \<and> e = entryFor ext opts nm (source_of s))
           (filter isCSS (files c)) es"
    and fold: "fold (processEntry opts pp) es (a, files c) = (a', files c')"
    by blast
  have "K (snd (fold (processEntry opts pp) es (a, files c)))"
  proof (rule fold_processEntry_files)
    fix e b fs
    assume "e \<in> set es" and "K fs"
    with entries_css [OF es] step show "K (snd (processEntry opts pp e (b, fs)))"
      by blast
  next
    from init show "K (snd (a, files c))" by simp
  qed
  with fold show ?thesis by simp
qed

section \<open>Names that are not generated\<close>

lemma processEntry_files_listed:
  assumes "entry_file e \<in> set fs"
  shows "snd (processEntry opts pp e (a, fs)) =
           (if 1 < length (chunks e) \<and> \<not> opt_preserve opts then remove1 (entry_file e) fs else fs) @
           generatedNames opts pp e"
  using assms
  by (cases "length (chunks e) = 1")
    (simp_all add: processEntry_files generatedNames_def splice_original Let_def)

lemma notGenerated_entryFor:
  assumes "notGenerated ext opts k" and "isCSS key"
  shows "k \<notin> fullname ` set (chunks (entryFor ext opts key src))"
    and "importsTarget opts pp (entryFor ext opts key src) \<noteq> Some k"
    and "k \<notin> set (generatedNames opts pp (entryFor ext opts key src))"
proof -
  show 1: "k \<notin> fullname ` set (chunks (entryFor ext opts key src))"
  proof
    assume "k \<in> fullname ` set (chunks (entryFor ext opts key src))"
    then obtain p where p: "p \<in> set (chunks (entryFor ext opts key src))" and k: "k = fullname p"
      by blast
    from entryFor_fullname [OF p] obtain i where
      i: "i < length (ext_split ext src (opt_size opts))"
      and "p = \<lparr>rawValue = ext_split ext src (opt_size opts) ! i,
            name = opt_filename opts key src (Some i),
            fullname = withDirname (ext_dirname ext key) (opt_filename opts key src (Some i))\<rparr>"
      by blast
    then have "fullname p = withDirname (ext_dirname ext key) (opt_filename opts key src (Some i))"
      by simp
    moreover from assms i
    have "withDirname (ext_dirname ext key) (opt_filename opts key src (Some i)) \<noteq> k"
      unfolding notGenerated_def by blast
    ultimately show False
      using k by simp
  qed
  show 2: "importsTarget opts pp (entryFor ext opts key src) \<noteq> Some k"
  proof
    assume "importsTarget opts pp (entryFor ext opts key src) = Some k"
    from importsTarget_entryFor [OF this] assms show False
      unfolding notGenerated_def by blast
  qed
  from 1 2 show "k \<notin> set (generatedNames opts pp (entryFor ext opts key src))"
    by (auto simp: generatedNames_def split: if_splits option.splits)
qed

lemma notGenerated_assets:
  assumes "notGenerated ext opts k" and "isCSS key"
  shows "fst (processEntry opts pp (entryFor ext opts key src) (b, fs)) k =
           (if k = key \<and> 1 < length (ext_split ext src (opt_size opts)) \<and> \<not> opt_preserve opts
            then None else b k)"
  using processEntry_assets_frame [OF notGenerated_entryFor(1,2) [OF assms], where a = b and fs = fs]
  by (simp add: entryFor_simps)

lemma fold_other_entries:
  assumes "\<forall>e\<in>set es. \<exists>key src. isCSS key \<and> e = entryFor ext opts key src"
    and "mset (map entry_file es) \<subseteq># mset fs"
    and "k \<notin> entry_file ` set es"
    and "notGenerated ext opts k"
  shows "fst (fold (processEntry opts pp) es (a, fs)) k = a k \<and>
         count_list (snd (fold (processEntry opts pp) es (a, fs))) k = count_list fs k"
  using assms(1-3)
proof (induction es arbitrary: a fs)
  case Nil
  then show ?case by simp
next
  case (Cons e es)
  from Cons.prems(1) obtain key src where css: "isCSS key" and e: "e = entryFor ext opts key src"
    by auto
  from e have key: "entry_file e = key"
    by (simp add: entryFor_simps)
  from Cons.prems(3) key have neq: "k \<noteq> key"
    by auto
  from Cons.prems(2) have listed: "entry_file e \<in> set fs"
    by (auto dest: mset_subset_eq_insertD)
  obtain a' fs' where step: "processEntry opts pp e (a, fs) = (a', fs')"
    by (cases "processEntry opts pp e (a, fs)")
  from notGenerated_assets [OF assms(4) css, where b = a and fs = fs and pp = pp and src = src] e neq step have a': "a' k = a k"
    by simp
  from processEntry_files_listed [OF listed, of opts pp a] step
  have fs': "fs' = (if 1 < length (chunks e) \<and> \<not> opt_preserve opts
                    then remove1 (entry_file e) fs else fs) @ generatedNames opts pp e"
    by simp
  from notGenerated_entryFor(3) [OF assms(4) css] e
  have gen: "k \<notin> set (generatedNames opts pp e)"
    by simp
  from fs' gen neq key have cnt: "count_list fs' k = count_list fs k"
    by (simp add: count_list_0_iff flip: count_mset)
  from Cons.prems(2) have "mset (map entry_file es) \<subseteq># mset fs - {#entry_file e#}"
    by (simp add: insert_subset_eq_iff subset_mset.less_imp_le)
  also from listed have "\<dots> \<subseteq># mset (remove1 (entry_file e) fs)"
    by simp
  finally have sub1: "mset (map entry_file es) \<subseteq># mset (remove1 (entry_file e) fs)" .
  then have "mset (map entry_file es) \<subseteq># mset fs"
    by (metis Cons.prems(2) mset.simps(2) list.simps(9) mset_subset_eq_insertD subset_mset.less_imp_le)
  with sub1 fs' have sub: "mset (map entry_file es) \<subseteq># mset fs'"
    by (auto intro: subset_mset.add_increasing2)
  from Cons.prems have "\<forall>e\<in>set es. \<exists>key src. isCSS key \<and> e = entryFor ext opts key src"
    and "k \<notin> entry_file ` set es"
    by simp_all
  from Cons.IH [OF this(1) sub this(2), of a'] step a' cnt show ?case
    by simp
qed

lemma processChunk_other_name:
  assumes run: "processChunk ext opts pp a c = Inr (a', c')"
    and k: "\<not> isCSS k" "notGenerated ext opts k"
  shows "count_list (files c') k = count_list (files c) k"
proof -
  from processChunk_Inr [OF run] obtain es where
    es: "list_all2 (\<lambda>nm e. \<exists>s. a nm = Some s \<and> e = entryFor ext opts nm (source_of s))
           (filter isCSS (files c)) es"
    and fold: "fold (processEntry opts pp) es (a, files c) = (a', files c')"
    by blast
  from entries_files [OF es] have names: "map entry_file es = filter isCSS (files c)" .
  have 1: "\<forall>e\<in>set es. \<exists>key src. isCSS key \<and> e = entryFor ext opts key src"
    using entries_css [OF es] by blast
  have 2: "mset (map entry_file es) \<subseteq># mset (files c)"
    unfolding names by simp
  have 3: "k \<notin> entry_file ` set es"
  proof
    assume "k \<in> entry_file ` set es"
    then have "k \<in> set (map entry_file es)" by simp
    with names k(1) show False by simp
  qed
  from fold_other_entries [OF 1 2 3 k(2), of pp a] fold show ?thesis
    by simp
qed

lemma list_all2_memD:
  assumes "list_all2 R xs ys" and "x \<in> set xs"
  shows "\<exists>y\<in>set ys. R x y"
  using assms by (induction rule: list_all2_induct) auto

lemma processEntry_preserve_dom:
  assumes "opt_preserve opts" and "b k \<noteq> None"
  shows "fst (processEntry opts pp e (b, fs)) k \<noteq> None"
  using assms
  by (auto simp: processEntry_eq Let_def map_add_def split: option.splits)

lemma processEntry_preserve_listed:
  assumes "opt_preserve opts" and "k \<in> set fs"
  shows "k \<in> set (snd (processEntry opts pp e (b, fs)))"
  using assms by (simp add: processEntry_files Let_def)

lemma fold_removes_original:
  assumes "\<forall>e\<in>set es. \<exists>k src. isCSS k \<and> e = entryFor ext opts k src"
    and "\<forall>e\<in>set es. entry_file e = key \<longrightarrow> 1 < length (chunks e)"
    and "mset (map entry_file es) \<subseteq># mset fs"
    and "count (mset fs) key = count (mset (map entry_file es)) key"
    and ng: "notGenerated ext opts key" and np: "\<not> opt_preserve opts"
  shows "key \<notin> set (snd (fold (processEntry opts pp) es (a, fs))) \<and>
         fst (fold (processEntry opts pp) es (a, fs)) key =
           (if key \<in> entry_file ` set es then None else a key)"
  using assms(1-4)
proof (induction es arbitrary: a fs)
  case Nil
  then show ?case
    by (simp add: count_eq_zero_iff)
next
  case (Cons e es)
  from Cons.prems(1) obtain k src where css: "isCSS k" and e: "e = entryFor ext opts k src"
    by auto
  from e have k: "entry_file e = k"
    by (simp add: entryFor_simps)
  from Cons.prems(3) have listed: "entry_file e \<in> set fs"
    by (auto dest: mset_subset_eq_insertD)
  obtain a' fs' where step: "processEntry opts pp e (a, fs) = (a', fs')"
    by (cases "processEntry opts pp e (a, fs)")
  let ?rm = "1 < length (chunks e) \<and> \<not> opt_preserve opts"
  from processEntry_files_listed [OF listed, of opts pp a] step
  have fs': "fs' = (if ?rm then remove1 (entry_file e) fs else fs) @ generatedNames opts pp e"
    by simp
  from notGenerated_entryFor(3) [OF ng css] e
  have gen: "key \<notin> set (generatedNames opts pp e)"
    by simp
  then have gen0: "count (mset (generatedNames opts pp e)) key = 0"
    by (simp add: count_eq_zero_iff)
  from notGenerated_assets [OF ng css, where b = a and fs = fs and pp = pp and src = src] e step
  have a': "a' key = (if key = k \<and> ?rm then None else a key)"
    by (simp add: entryFor_simps)
  from Cons.prems(3) have "mset (map entry_file es) \<subseteq># mset fs - {#entry_file e#}"
    by (simp add: insert_subset_eq_iff subset_mset.less_imp_le)
  also from listed have "\<dots> = mset (remove1 (entry_file e) fs)"
    by simp
  finally have sub1: "mset (map entry_file es) \<subseteq># mset (remove1 (entry_file e) fs)" .
  also have "\<dots> \<subseteq># mset fs"
    by (simp add: listed)
  finally have sub2: "mset (map entry_file es) \<subseteq># mset fs" .
  from sub1 sub2 fs' have sub: "mset (map entry_file es) \<subseteq># mset fs'"
    by (auto intro: subset_mset.add_increasing2)
  have cnt: "count (mset fs') key = count (mset (map entry_file es)) key"
  proof (cases "k = key")
    case True
    with Cons.prems(2) k np have "?rm"
      by simp
    with fs' gen0 k True Cons.prems(4) show ?thesis
      by simp
  next
    case False
    with fs' gen0 k Cons.prems(4) show ?thesis
      by simp
  qed
  from Cons.prems have "\<forall>e\<in>set es. \<exists>k src. isCSS k \<and> e = entryFor ext opts k src"
    and "\<forall>e\<in>set es. entry_file e = key \<longrightarrow> 1 < length (chunks e)"
    by simp_all
  from Cons.IH [OF this sub cnt, of a']
  have IH: "key \<notin> set (snd (fold (processEntry opts pp) es (a', fs'))) \<and>
        fst (fold (processEntry opts pp) es (a', fs')) key =
          (if key \<in> entry_file ` set es then None else a' key)" .
  show ?case
  proof (cases "k = key")
    case True
    with Cons.prems(2) k np have "?rm"
      by simp
    with a' True have "a' key = None"
      by simp
    with IH step k True show ?thesis
      by simp
  next
    case False
    with a' have "a' key = a key"
      by auto
    with IH step k False show ?thesis
      by auto
  qed
qed

lemma processChunk_removes_original:
  assumes c: "processChunk ext opts pp a1 c = Inr (a2, c')"
    and np: "\<not> opt_preserve opts"
    and mem: "key \<in> set (files c)" and css: "isCSS key"
    and s: "a1 key = Some s" and n: "1 < length (ext_split ext (source_of s) (opt_size opts))"
    and ng: "notGenerated ext opts key"
  shows "a2 key = None \<and> key \<notin> set (files c')"
proof -
  from processChunk_Inr [OF c] obtain es where
    es: "list_all2 (\<lambda>nm e. \<exists>s. a1 nm = Some s \<and> e = entryFor ext opts nm (source_of s))
           (filter isCSS (files c)) es"
    and fold: "fold (processEntry opts pp) es (a1, files c) = (a2, files c')"
    by blast
  from entries_files [OF es] have names: "map entry_file es = filter isCSS (files c)" .
  have 1: "\<forall>e\<in>set es. \<exists>k src. isCSS k \<and> e = entryFor ext opts k src"
    using entries_css [OF es] by blast
  have 2: "\<forall>e\<in>set es. entry_file e = key \<longrightarrow> 1 < length (chunks e)"
  proof (intro ballI impI)
    fix e
    assume "e \<in> set es" and ek: "entry_file e = key"
    from entries_css [OF es \<open>e \<in> set es\<close>] obtain k s' where
      "a1 k = Some s'" and e: "e = entryFor ext opts k (source_of s')"
      by blast
    from e ek have "k = key"
      by (simp add: entryFor_simps)
    with \<open>a1 k = Some s'\<close> s e have "e = entryFor ext opts key (source_of s)"
      by simp
    with n show "1 < length (chunks e)"
      by (simp add: entryFor_simps)
  qed
  have 3: "mset (map entry_file es) \<subseteq># mset (files c)"
    unfolding names by simp
  have 4: "count (mset (files c)) key = count (mset (map entry_file es)) key"
    unfolding names using css by simp
  from mem css have "key \<in> set (map entry_file es)"
    unfolding names by simp
  then have "key \<in> entry_file ` set es"
    by simp
  with fold_removes_original [OF 1 2 3 4 ng np, of pp a1] fold show ?thesis
    by simp
qed

section \<open>The example build\<close>

lemma ex_part_name:
  "nameInterpolator ex_ext ''[name]-[part].[ext]'' key src (Some i) =
     ''styles-'' @ string_of_nat (i + 1) @ ''.css''"
  by (simp add: nameInterpolator_def ex_ext_def ex_interpolateName_def del: string_of_nat.simps)

lemma ex_notGenerated:
  assumes "opt_filename opts = nameInterpolator ex_ext ''[name]-[part].[ext]''"
    and "opt_imports opts = (\<lambda>fl content index. None)"
    and "CHR ''-'' \<notin> set k"
  shows "notGenerated ex_ext opts k"
  unfolding notGenerated_def
proof (intro conjI allI impI)
  fix key src i
  have "CHR ''-'' \<in> set (withDirname (ext_dirname ex_ext key) (opt_filename opts key src (Some i)))"
    by (simp add: assms(1) ex_part_name withDirname_def del: string_of_nat.simps)
  with assms(3) show "withDirname (ext_dirname ex_ext key) (opt_filename opts key src (Some i)) \<noteq> k"
    by auto
next
  fix key content nm
  assume "opt_imports opts key content None = Some nm"
  then show "withDirname (ext_dirname ex_ext key) nm \<noteq> k"
    by (simp add: assms(2))
qed

lemma ex_interpolator12: "nameInterpolator ex_ext12 = nameInterpolator ex_ext"
  by (simp add: fun_eq_iff nameInterpolator_def ex_ext12_def ex_ext_def)

lemma ex_entry12_chunks:
  "chunks ex_entry12 =
     [\<lparr>rawValue = ''r{}'', name = ''styles-1.css'', fullname = ''sub/dir/styles-1.css''\<rparr>,
      \<lparr>rawValue = ''r{}'', name = ''styles-2.css'', fullname = ''sub/dir/styles-2.css''\<rparr>,
      \<lparr>rawValue = ''r{}'', name = ''styles-3.css'', fullname = ''sub/dir/styles-3.css''\<rparr>,
      \<lparr>rawValue = ''r{}'', name = ''styles-4.css'', fullname = ''sub/dir/styles-4.css''\<rparr>,
      \<lparr>rawValue = ''r{}'', name = ''styles-5.css'', fullname = ''sub/dir/styles-5.css''\<rparr>,
      \<lparr>rawValue = ''r{}'', name = ''styles-6.css'', fullname = ''sub/dir/styles-6.css''\<rparr>,
      \<lparr>rawValue = ''r{}'', name = ''styles-7.css'', fullname = ''sub/dir/styles-7.css''\<rparr>,
      \<lparr>rawValue = ''r{}'', name = ''styles-8.css'', fullname = ''sub/dir/styles-8.css''\<rparr>,
      \<lparr>rawValue = ''r{}'', name = ''styles-9.css'', fullname = ''sub/dir/styles-9.css''\<rparr>,
      \<lparr>rawValue = ''r{}'', name = ''styles-10.css'', fullname = ''sub/dir/styles-10.css''\<rparr>,
      \<lparr>rawValue = ''r{}'', name = ''styles-11.css'', fullname = ''sub/dir/styles-11.css''\<rparr>,
      \<lparr>rawValue = ''r{}'', name = ''styles-12.css'', fullname = ''sub/dir/styles-12.css''\<rparr>]"
  by code_simp

lemma ex_numerals: "string_of_nat (Suc 0) = ''1'' \<and> string_of_nat 12 = ''12''"
  by code_simp

section \<open>The constructed plugin\<close>

lemma normalizeImports_result:
  "normalizeImports ext v p =
     (case v of
        JString s \<Rightarrow> Inr (\<lambda>fl content index. Some (nameInterpolator ext s fl content index))
      | JBoolean b \<Rightarrow>
          Inr (if b then
                 (if p then (\<lambda>fl content index.
                               Some (nameInterpolator ext ''[name]-split.[ext]'' fl content index))
                  else (\<lambda>fl content index. Some fl))
               else (\<lambda>fl content index. None))
      | _ \<Rightarrow> Inl TypeError)"
  by (cases v) (simp_all add: normalizeImports_def)

lemma constructor_Inr:
  assumes "plugin_constructor ext args = Inr opts"
  shows "opt_size opts = (case arg_size args of None \<Rightarrow> 4000 | Some n \<Rightarrow> n)"
    and "opt_filename opts =
           nameInterpolator ext
             (case arg_filename args of None \<Rightarrow> ''[name]-[part].[ext]'' | Some t \<Rightarrow> t)"
    and "opt_preserve opts = arg_preserve args"
    and "normalizeImports ext (case arg_imports args of None \<Rightarrow> JBoolean False | Some v \<Rightarrow> v)
           (arg_preserve args) = Inr (opt_imports opts)"
  using assms by (auto simp: plugin_constructor_def Let_def split: sum.splits)

lemma constructor_imports_false:
  assumes "plugin_constructor ext args = Inr opts"
    and "arg_imports args = None \<or> arg_imports args = Some (JBoolean False)"
  shows "opt_imports opts = (\<lambda>fl content index. None)"
  using constructor_Inr(4) [OF assms(1)] assms(2)
  by (auto simp: normalizeImports_result)

lemma importsTarget_false:
  assumes "opt_imports opts = (\<lambda>fl content index. None)"
  shows "importsTarget opts pp e = None"
  using assms by (simp add: importsTarget_def)

section \<open>Configuration validation\<close>

lemma constructor_imports_default:
  assumes "arg_imports args = None"
  shows "\<exists>opts. plugin_constructor ext args = Inr opts \<and>
           opt_imports opts = (\<lambda>fl content index. None)"
  using assms by (simp add: plugin_constructor_def normalizeImports_result Let_def)

text \<open>
  Claim C3. When the object given to the constructor has an \<^verbatim>\<open>imports\<close> value,
  construction throws a TypeError exactly when the type of that value is neither
  string nor boolean, and returns the plugin exactly when it is one of the two. The
  constructor is a function of its argument alone: no compilation is involved.
\<close>

theorem constructor_imports_type:
  assumes "arg_imports args = Some v"
  shows "((plugin_constructor ext args = Inl TypeError) =
            (typeof v \<noteq> ''string'' \<and> typeof v \<noteq> ''boolean'')) \<and>
         ((\<exists>opts. plugin_constructor ext args = Inr opts) =
            (typeof v = ''string'' \<or> typeof v = ''boolean''))"
  using assms
  by (cases v) (simp_all add: plugin_constructor_def normalizeImports_result Let_def)

theorem constructor_imports_type_witness:
  "plugin_constructor ex_ext (ex_args\<lparr>arg_imports := Some JFunction\<rparr>) = Inl TypeError \<and>
   (\<exists>opts. plugin_constructor ex_ext (ex_args\<lparr>arg_imports := Some (JBoolean True)\<rparr>) = Inr opts) \<and>
   (\<exists>opts. plugin_constructor ex_ext (ex_args\<lparr>arg_imports := Some (JString ''potato.css'')\<rparr>)
      = Inr opts)"
  using constructor_imports_type [of "ex_args\<lparr>arg_imports := Some JFunction\<rparr>" JFunction ex_ext]
    constructor_imports_type [of "ex_args\<lparr>arg_imports := Some (JBoolean True)\<rparr>"
      "JBoolean True" ex_ext]
    constructor_imports_type [of "ex_args\<lparr>arg_imports := Some (JString ''potato.css'')\<rparr>"
      "JString ''potato.css''" ex_ext]
  by simp

section \<open>The splitter reproduces its input\<close>

lemma scanRules_concat:
  "scanRules m d acc cs = (rs, t) \<Longrightarrow> concat rs @ t = rev acc @ cs"
proof (induction m d acc cs arbitrary: rs t rule: scanRules.induct)
  case (1 m d acc)
  then show ?case by simp
next
  case (2 d acc c cs)
  then show ?case
    by (auto split: if_splits prod.splits simp: neq_Nil_conv)
next
  case (3 q d acc c cs)
  then show ?case
    by (auto split: if_splits prod.splits simp: neq_Nil_conv)
next
  case (4 d acc c cs)
  then show ?case
    by (auto split: if_splits prod.splits simp: neq_Nil_conv)
qed

lemma packRules_concat: "concat (packRules L n cur rs t) = cur @ concat rs @ t"
  by (induction rs arbitrary: n cur) auto

text \<open>
  Claim C9. For every stylesheet text \<open>T\<close> and every positive limit \<open>L\<close>, the segments
  that the splitter of the spec returns for \<open>T\<close> and \<open>L\<close>, concatenated in order, are
  \<open>T\<close>.
\<close>

theorem spec_split_concat:
  assumes "0 < L"
  shows "concat (spec_split T L) = T"
proof -
  obtain rs t where scan: "scanRules Code 0 [] T = (rs, t)"
    by (cases "scanRules Code 0 [] T")
  then have "concat rs @ t = T"
    by (auto dest: scanRules_concat)
  with scan show ?thesis
    by (simp add: spec_split_def packRules_concat)
qed

theorem spec_split_concat_witness:
  "spec_split ''a{}b{}c{} d{}e{}f{} g{}'' 3 = [''a{}b{}c{}'', '' d{}e{}f{}'', '' g{}''] \<and>
   concat (spec_split ''a{}b{}c{} d{}e{}f{} g{}'' 3) = ''a{}b{}c{} d{}e{}f{} g{}''"
proof -
  have "spec_split ''a{}b{}c{} d{}e{}f{} g{}'' 3 = [''a{}b{}c{}'', '' d{}e{}f{}'', '' g{}'']"
    by code_simp
  with spec_split_concat [of 3 "''a{}b{}c{} d{}e{}f{} g{}''"] show ?thesis
    by simp
qed

section \<open>An asset that needs no split\<close>

text \<open>
  Claim C1, as the code has it. When the plugin was constructed with \<^verbatim>\<open>imports\<close>
  false or missing and the split of an asset of the table gives exactly one segment,
  processing the entry of that asset leaves the asset table and the file list of the
  chunk as they were.
\<close>

theorem single_segment_without_imports:
  assumes "plugin_constructor ext args = Inr opts"
    and "arg_imports args = None \<or> arg_imports args = Some (JBoolean False)"
    and "a key = Some s"
    and "length (ext_split ext (source_of s) (opt_size opts)) = 1"
    and "plugin_file ext opts key (Some s) = Inr e"
  shows "processEntry opts pp e (a, fs) = (a, fs)"
proof -
  from assms(5) have "e = entryFor ext opts key (source_of s)"
    by (simp add: plugin_file_Inr)
  with assms(4) have "length (chunks e) = 1"
    by (simp add: entryFor_simps)
  with importsTarget_false [OF constructor_imports_false [OF assms(1,2)]] show ?thesis
    by (simp add: processEntry_eq Let_def)
qed

theorem single_segment_without_imports_witness:
  "plugin_constructor ex_ext (ex_args\<lparr>arg_size := Some 10\<rparr>) = Inr ex_options \<and>
   ex_assets ''styles.css'' = Some (Source ''a{}b{}c{}'' (Some ''map'')) \<and>
   length (ext_split ex_ext ''a{}b{}c{}'' 10) = 1 \<and>
   processEntry ex_options ''/foo'' (entryFor ex_ext ex_options ''styles.css'' ''a{}b{}c{}'')
     (ex_assets, [''bundle.js'', ''styles.css'']) = (ex_assets, [''bundle.js'', ''styles.css''])"
proof -
  have c: "plugin_constructor ex_ext (ex_args\<lparr>arg_size := Some 10\<rparr>) = Inr ex_options"
    by (simp add: plugin_constructor_def normalizeImports_result ex_args_def ex_options_def)
  have i: "arg_imports (ex_args\<lparr>arg_size := Some 10\<rparr>) = None \<or>
           arg_imports (ex_args\<lparr>arg_size := Some 10\<rparr>) = Some (JBoolean False)"
    by (simp add: ex_args_def)
  have s: "ex_assets ''styles.css'' = Some (Source ''a{}b{}c{}'' (Some ''map''))"
    by (simp add: ex_assets_def)
  have n: "length (ext_split ex_ext (source_of (Source ''a{}b{}c{}'' (Some ''map'')))
             (opt_size ex_options)) = 1"
    by (simp add: ex_ext_def ex_split_def ex_options_def)
  have f: "plugin_file ex_ext ex_options ''styles.css'' (Some (Source ''a{}b{}c{}'' (Some ''map''))) =
             Inr (entryFor ex_ext ex_options ''styles.css'' ''a{}b{}c{}'')"
    by (simp add: plugin_file_Inr)
  from single_segment_without_imports
    [where a = ex_assets and key = "''styles.css''", OF c i s n f] c s n show ?thesis
    by (simp add: ex_options_def)
qed

text \<open>
  Claim C1 as stated fails when an imports file is asked for. With \<^verbatim>\<open>imports: true\<close>
  and the limit 10 the example stylesheet is one segment; after the build the name
  \<^verbatim>\<open>styles.css\<close> holds a new RawSource in place of the original object, and the
  name has been pushed onto the file list a second time.
\<close>

theorem single_segment_counterexample:
  "ex_split ''a{}b{}c{}'' 10 = [''a{}b{}c{}''] \<and>
   assets ex_compilation ''styles.css'' = Some (Source ''a{}b{}c{}'' (Some ''map'')) \<and>
   map files ex_chunks = [[''bundle.js'', ''styles.css'']] \<and>
   (case build ex_ext (ex_args\<lparr>arg_size := Some 10, arg_imports := Some (JBoolean True)\<rparr>)
          ex_compilation ex_chunks of
      Inl err \<Rightarrow> False
    | Inr (cpl', cs') \<Rightarrow>
        assets cpl' ''styles.css'' =
          Some (Part \<lparr>rawValue = ''a{}b{}c{}'', name = ''styles-1.css'',
                      fullname = ''styles-1.css''\<rparr>) \<and>
        map files cs' = [[''bundle.js'', ''styles.css'', ''styles.css'']])"
  by code_simp

section \<open>The imports file\<close>

text \<open>
  Claim C4. When the split of an asset gives N > 1 segments, the entry has N parts,
  part \<open>i\<close> holding segment \<open>i\<close>, and the content of the imports file is N import
  statements in the order of the parts, every statement but the last followed by
  one newline and nothing else between or around them. Statement \<open>i\<close> is the text
  \<^verbatim>\<open>@import "./NAME";\<close> with the name of part \<open>i\<close> when the stripped public path
  begins with a dot, and \<^verbatim>\<open>@import "PATH/FULLNAME";\<close> with the stripped public path
  and the full name of part \<open>i\<close> otherwise. Where the entry stores an imports file,
  the object it stores is a RawSource of exactly this content.
\<close>

theorem imports_file_content:
  assumes "plugin_file ext opts key (Some s) = Inr e"
    and "segs = ext_split ext (source_of s) (opt_size opts)"
    and "1 < length segs"
  shows "length (chunks e) = length segs \<and>
         (\<exists>stmts. length stmts = length segs \<and>
            (\<forall>i<length segs.
               rawValue (chunks e ! i) = segs ! i \<and>
               stmts ! i =
                 (if prefix ''.'' pp
                  then ''@import '' @ [CHR 0x22] @ ''./'' @ name (chunks e ! i) @
                         [CHR 0x22] @ '';''
                  else ''@import '' @ [CHR 0x22] @ pp @ ''/'' @ fullname (chunks e ! i) @
                         [CHR 0x22] @ '';'')) \<and>
            importsFile pp e =
              RawSource (concat (map (\<lambda>t. t @ [CHR 0x0A]) (butlast stmts)) @ last stmts) \<and>
            (\<forall>t. importsTarget opts pp e = Some t \<longrightarrow>
                   fst (processEntry opts pp e (a, fs)) t =
                     Some (RawSource (concat (map (\<lambda>t. t @ [CHR 0x0A]) (butlast stmts)) @
                                      last stmts))))"
proof -
  from assms(1) have e: "e = entryFor ext opts key (source_of s)"
    by (simp add: plugin_file_Inr)
  with assms(2) have len: "length (chunks e) = length segs"
    by (simp add: entryFor_simps)
  let ?stmts = "map (importStatement pp) (chunks e)"
  have n: "length ?stmts = length segs"
    using len by simp
  have each: "\<forall>i<length segs.
               rawValue (chunks e ! i) = segs ! i \<and>
               ?stmts ! i =
                 (if prefix ''.'' pp
                  then ''@import '' @ [CHR 0x22] @ ''./'' @ name (chunks e ! i) @
                         [CHR 0x22] @ '';''
                  else ''@import '' @ [CHR 0x22] @ pp @ ''/'' @ fullname (chunks e ! i) @
                         [CHR 0x22] @ '';'')"
  proof (intro allI impI)
    fix i
    assume i: "i < length segs"
    with e assms(2) have "rawValue (chunks e ! i) = segs ! i"
      by (simp add: entryFor_nth)
    moreover from i len have "?stmts ! i = importStatement pp (chunks e ! i)"
      by simp
    ultimately show "rawValue (chunks e ! i) = segs ! i \<and>
               ?stmts ! i =
                 (if prefix ''.'' pp
                  then ''@import '' @ [CHR 0x22] @ ''./'' @ name (chunks e ! i) @
                         [CHR 0x22] @ '';''
                  else ''@import '' @ [CHR 0x22] @ pp @ ''/'' @ fullname (chunks e ! i) @
                         [CHR 0x22] @ '';'')"
      by (simp only: importStatement_text)
  qed
  from len assms(3) have many: "1 < length (chunks e)"
    by simp
  have content: "importsFile pp e =
      RawSource (concat (map (\<lambda>t. t @ [CHR 0x0A]) (butlast ?stmts)) @ last ?stmts)"
    by (rule importsFile_lines [OF many])
  have stored: "\<forall>t. importsTarget opts pp e = Some t \<longrightarrow>
      fst (processEntry opts pp e (a, fs)) t =
        Some (RawSource (concat (map (\<lambda>t. t @ [CHR 0x0A]) (butlast ?stmts)) @ last ?stmts))"
    unfolding content [symmetric] by (simp add: processEntry_eq Let_def)
  from n each content stored have "\<exists>stmts. length stmts = length segs \<and>
            (\<forall>i<length segs.
               rawValue (chunks e ! i) = segs ! i \<and>
               stmts ! i =
                 (if prefix ''.'' pp
                  then ''@import '' @ [CHR 0x22] @ ''./'' @ name (chunks e ! i) @
                         [CHR 0x22] @ '';''
                  else ''@import '' @ [CHR 0x22] @ pp @ ''/'' @ fullname (chunks e ! i) @
                         [CHR 0x22] @ '';'')) \<and>
            importsFile pp e =
              RawSource (concat (map (\<lambda>t. t @ [CHR 0x0A]) (butlast stmts)) @ last stmts) \<and>
            (\<forall>t. importsTarget opts pp e = Some t \<longrightarrow>
                   fst (processEntry opts pp e (a, fs)) t =
                     Some (RawSource (concat (map (\<lambda>t. t @ [CHR 0x0A]) (butlast stmts)) @
                                      last stmts)))"
    by (intro exI [of _ ?stmts] conjI)
  with len show ?thesis
    by (rule conjI)
qed

theorem imports_file_content_witness:
  "plugin_file ex_ext
     (ex_options\<lparr>opt_size := 2,
        opt_imports := (\<lambda>fl content index.
          Some (nameInterpolator ex_ext ''imports.css'' fl content index))\<rparr>)
     ''sub/dir/styles.css'' (Some (Source ''a{}b{}c{}'' None)) = Inr ex_entry \<and>
   map rawValue (chunks ex_entry) = [''a{}b{}'', ''c{}''] \<and>
   importsFile ''/foo'' ex_entry =
     RawSource (''@import '' @ [CHR 0x22] @ ''/foo/sub/dir/styles-1.css'' @ [CHR 0x22] @ '';'' @
                [CHR 0x0A] @
                ''@import '' @ [CHR 0x22] @ ''/foo/sub/dir/styles-2.css'' @ [CHR 0x22] @ '';'') \<and>
   fst (processEntry
          (ex_options\<lparr>opt_size := 2,
             opt_imports := (\<lambda>fl content index.
               Some (nameInterpolator ex_ext ''imports.css'' fl content index))\<rparr>)
          ''/foo'' ex_entry (ex_assets, [])) ''sub/dir/imports.css'' =
     Some (RawSource
            (''@import '' @ [CHR 0x22] @ ''/foo/sub/dir/styles-1.css'' @ [CHR 0x22] @ '';'' @
             [CHR 0x0A] @
             ''@import '' @ [CHR 0x22] @ ''/foo/sub/dir/styles-2.css'' @ [CHR 0x22] @ '';''))"
proof -
  let ?opts = "ex_options\<lparr>opt_size := 2,
        opt_imports := (\<lambda>fl content index.
          Some (nameInterpolator ex_ext ''imports.css'' fl content index))\<rparr>"
  have f: "plugin_file ex_ext ?opts ''sub/dir/styles.css'' (Some (Source ''a{}b{}c{}'' None)) =
             Inr ex_entry"
    by (simp add: plugin_file_Inr ex_entry_def entryFor_def)
  have s: "[''a{}b{}'', ''c{}''] =
             ext_split ex_ext (source_of (Source ''a{}b{}c{}'' None)) (opt_size ?opts)"
    by (simp add: ex_ext_def ex_split_def)
  have n: "1 < length [''a{}b{}'', ''c{}'']"
    by simp
  have t: "importsTarget ?opts ''/foo'' ex_entry = Some ''sub/dir/imports.css''"
    by (simp add: importsTarget_def nameInterpolator_def ex_ext_def ex_interpolateName_def
        withDirname_def ex_entry_def entryFor_simps ex_dirname_def)
  from imports_file_content [OF f s n, where pp = "''/foo''" and a = ex_assets and fs = "[]"]
  obtain stmts where parts: "length (chunks ex_entry) = length [''a{}b{}'', ''c{}'']"
    and len: "length stmts = length [''a{}b{}'', ''c{}'']"
    and each: "\<forall>i<length [''a{}b{}'', ''c{}''].
        rawValue (chunks ex_entry ! i) = [''a{}b{}'', ''c{}''] ! i \<and>
        stmts ! i = (if prefix ''.'' ''/foo''
           then ''@import '' @ [CHR 0x22] @ ''./'' @ name (chunks ex_entry ! i) @ [CHR 0x22] @ '';''
           else ''@import '' @ [CHR 0x22] @ ''/foo'' @ ''/'' @ fullname (chunks ex_entry ! i) @
                  [CHR 0x22] @ '';'')"
    and content: "importsFile ''/foo'' ex_entry =
        RawSource (concat (map (\<lambda>t. t @ [CHR 0x0A]) (butlast stmts)) @ last stmts)"
    and stored: "\<forall>t. importsTarget ?opts ''/foo'' ex_entry = Some t \<longrightarrow>
        fst (processEntry ?opts ''/foo'' ex_entry (ex_assets, [])) t =
          Some (RawSource (concat (map (\<lambda>t. t @ [CHR 0x0A]) (butlast stmts)) @ last stmts))"
    by blast
  from len obtain x y where xy: "stmts = [x, y]"
    by (auto simp: length_Suc_conv)
  from each have "stmts ! 0 = ''@import '' @ [CHR 0x22] @ ''/foo'' @ ''/'' @
        fullname (chunks ex_entry ! 0) @ [CHR 0x22] @ '';''"
    and "stmts ! 1 = ''@import '' @ [CHR 0x22] @ ''/foo'' @ ''/'' @
        fullname (chunks ex_entry ! 1) @ [CHR 0x22] @ '';''"
    and raw: "rawValue (chunks ex_entry ! 0) = ''a{}b{}''" "rawValue (chunks ex_entry ! 1) = ''c{}''"
    by simp_all
  with xy have body: "concat (map (\<lambda>t. t @ [CHR 0x0A]) (butlast stmts)) @ last stmts =
      ''@import '' @ [CHR 0x22] @ ''/foo/sub/dir/styles-1.css'' @ [CHR 0x22] @ '';'' @
      [CHR 0x0A] @
      ''@import '' @ [CHR 0x22] @ ''/foo/sub/dir/styles-2.css'' @ [CHR 0x22] @ '';''"
    by (simp add: ex_entry_chunks)
  from content body have c: "importsFile ''/foo'' ex_entry =
     RawSource (''@import '' @ [CHR 0x22] @ ''/foo/sub/dir/styles-1.css'' @ [CHR 0x22] @ '';'' @
                [CHR 0x0A] @
                ''@import '' @ [CHR 0x22] @ ''/foo/sub/dir/styles-2.css'' @ [CHR 0x22] @ '';'')"
    by (simp only:)
  from stored t body have p: "fst (processEntry ?opts ''/foo'' ex_entry (ex_assets, []))
      ''sub/dir/imports.css'' =
     Some (RawSource
            (''@import '' @ [CHR 0x22] @ ''/foo/sub/dir/styles-1.css'' @ [CHR 0x22] @ '';'' @
             [CHR 0x0A] @
             ''@import '' @ [CHR 0x22] @ ''/foo/sub/dir/styles-2.css'' @ [CHR 0x22] @ '';''))"
    by (simp only:)
  from parts raw
  have r: "map rawValue (chunks ex_entry) = [''a{}b{}'', ''c{}'']"
    by (simp add: list_eq_iff_nth_eq All_less_Suc numeral_2_eq_2)
  from f r c p show ?thesis
    by blast
qed

text \<open>
  Claim C5. For an entry of more than one part, statement \<open>i\<close> of the imports file
  is \<^verbatim>\<open>@import "./NAME";\<close>, with the name of part \<open>i\<close>, when no public path is
  configured (it is undefined or empty) or when the public path without one
  trailing slash begins with a dot; otherwise it is \<^verbatim>\<open>@import "BASE/FULLNAME";\<close>,
  where the base is the public path without one trailing slash and the full name is
  that of part \<open>i\<close>. The content of the imports file is these statements, in part
  order, separated by newlines.
\<close>

theorem import_statement_form:
  assumes "1 < length (chunks e)"
  shows "\<exists>stmts. length stmts = length (chunks e) \<and>
           (\<forall>i<length (chunks e).
              stmts ! i =
                (case publicPath cpl of
                   None \<Rightarrow>
                     ''@import '' @ [CHR 0x22] @ ''./'' @ name (chunks e ! i) @ [CHR 0x22] @ '';''
                 | Some b \<Rightarrow>
                     if b = [] \<or> prefix ''.'' (if suffix ''/'' b then butlast b else b)
                     then ''@import '' @ [CHR 0x22] @ ''./'' @ name (chunks e ! i) @
                            [CHR 0x22] @ '';''
                     else ''@import '' @ [CHR 0x22] @
                            (if suffix ''/'' b then butlast b else b) @ ''/'' @
                            fullname (chunks e ! i) @ [CHR 0x22] @ '';'')) \<and>
           importsFile (outputPublicPath cpl) e =
             RawSource (concat (map (\<lambda>t. t @ [CHR 0x0A]) (butlast stmts)) @ last stmts)"
proof -
  let ?pp = "outputPublicPath cpl"
  let ?stmts = "map (importStatement ?pp) (chunks e)"
  have stmt: "importStatement ?pp p =
      (case publicPath cpl of
         None \<Rightarrow> ''@import '' @ [CHR 0x22] @ ''./'' @ name p @ [CHR 0x22] @ '';''
       | Some b \<Rightarrow>
           if b = [] \<or> prefix ''.'' (if suffix ''/'' b then butlast b else b)
           then ''@import '' @ [CHR 0x22] @ ''./'' @ name p @ [CHR 0x22] @ '';''
           else ''@import '' @ [CHR 0x22] @ (if suffix ''/'' b then butlast b else b) @
                  ''/'' @ fullname p @ [CHR 0x22] @ '';'')" for p
  proof (cases "publicPath cpl")
    case None
    then show ?thesis
      by (simp add: importStatement_text outputPublicPath_def strip_def)
  next
    case (Some b)
    show ?thesis
    proof (cases "b = []")
      case True
      with Some show ?thesis
        by (simp add: importStatement_text outputPublicPath_def strip_def)
    next
      case False
      with Some have "?pp = (if suffix ''/'' b then butlast b else b)"
        by (simp add: outputPublicPath_def strip_eq)
      with Some False show ?thesis
        by (simp add: importStatement_text)
    qed
  qed
  have each: "\<forall>i<length (chunks e). ?stmts ! i =
      (case publicPath cpl of
         None \<Rightarrow> ''@import '' @ [CHR 0x22] @ ''./'' @ name (chunks e ! i) @ [CHR 0x22] @ '';''
       | Some b \<Rightarrow>
           if b = [] \<or> prefix ''.'' (if suffix ''/'' b then butlast b else b)
           then ''@import '' @ [CHR 0x22] @ ''./'' @ name (chunks e ! i) @ [CHR 0x22] @ '';''
           else ''@import '' @ [CHR 0x22] @ (if suffix ''/'' b then butlast b else b) @
                  ''/'' @ fullname (chunks e ! i) @ [CHR 0x22] @ '';'')"
    by (intro allI impI) (simp only: nth_map stmt)
  have content: "importsFile ?pp e =
      RawSource (concat (map (\<lambda>t. t @ [CHR 0x0A]) (butlast ?stmts)) @ last ?stmts)"
    by (rule importsFile_lines [OF assms])
  have n: "length ?stmts = length (chunks e)"
    by simp
  from n each content show ?thesis
    by (intro exI [of _ ?stmts] conjI)
qed

theorem import_statement_form_witness:
  "importsFile (outputPublicPath ex_compilation) ex_entry =
     RawSource (''@import '' @ [CHR 0x22] @ ''/foo/sub/dir/styles-1.css'' @ [CHR 0x22] @ '';'' @
                [CHR 0x0A] @
                ''@import '' @ [CHR 0x22] @ ''/foo/sub/dir/styles-2.css'' @ [CHR 0x22] @ '';'') \<and>
   importsFile (outputPublicPath (ex_compilation\<lparr>publicPath := Some ''/foo/''\<rparr>)) ex_entry =
     RawSource (''@import '' @ [CHR 0x22] @ ''/foo/sub/dir/styles-1.css'' @ [CHR 0x22] @ '';'' @
                [CHR 0x0A] @
                ''@import '' @ [CHR 0x22] @ ''/foo/sub/dir/styles-2.css'' @ [CHR 0x22] @ '';'') \<and>
   importsFile (outputPublicPath (ex_compilation\<lparr>publicPath := Some ''./''\<rparr>)) ex_entry =
     RawSource (''@import '' @ [CHR 0x22] @ ''./styles-1.css'' @ [CHR 0x22] @ '';'' @
                [CHR 0x0A] @
                ''@import '' @ [CHR 0x22] @ ''./styles-2.css'' @ [CHR 0x22] @ '';'') \<and>
   importsFile (outputPublicPath (ex_compilation\<lparr>publicPath := None\<rparr>)) ex_entry =
     RawSource (''@import '' @ [CHR 0x22] @ ''./styles-1.css'' @ [CHR 0x22] @ '';'' @
                [CHR 0x0A] @
                ''@import '' @ [CHR 0x22] @ ''./styles-2.css'' @ [CHR 0x22] @ '';'')"
proof -
  have n: "1 < length (chunks ex_entry)"
    by (simp add: ex_entry_chunks)
  have two: "importsFile (outputPublicPath cpl) ex_entry = RawSource (f 0 @ [CHR 0x0A] @ f 1)"
    if "\<exists>stmts. length stmts = length (chunks ex_entry) \<and>
           (\<forall>i<length (chunks ex_entry). stmts ! i = f i) \<and>
           importsFile (outputPublicPath cpl) ex_entry =
             RawSource (concat (map (\<lambda>t. t @ [CHR 0x0A]) (butlast stmts)) @ last stmts)"
    for cpl and f :: "nat \<Rightarrow> string"
  proof -
    from that obtain stmts where len: "length stmts = length (chunks ex_entry)"
      and each: "\<forall>i<length (chunks ex_entry). stmts ! i = f i"
      and content: "importsFile (outputPublicPath cpl) ex_entry =
             RawSource (concat (map (\<lambda>t. t @ [CHR 0x0A]) (butlast stmts)) @ last stmts)"
      by blast
    from len obtain u v where uv: "stmts = [u, v]"
      by (auto simp: length_Suc_conv ex_entry_chunks)
    from each have "stmts ! 0 = f 0" and "stmts ! 1 = f 1"
      by (simp_all add: ex_entry_chunks)
    with content uv show ?thesis
      by simp
  qed
  have a: "importsFile (outputPublicPath ex_compilation) ex_entry =
     RawSource (''@import '' @ [CHR 0x22] @ ''/foo/sub/dir/styles-1.css'' @ [CHR 0x22] @ '';'' @
                [CHR 0x0A] @
                ''@import '' @ [CHR 0x22] @ ''/foo/sub/dir/styles-2.css'' @ [CHR 0x22] @ '';'')"
    using two [OF import_statement_form [OF n, of ex_compilation]]
    by (simp add: ex_entry_chunks ex_compilation_def suffix_def)
  have b: "importsFile (outputPublicPath (ex_compilation\<lparr>publicPath := Some ''/foo/''\<rparr>)) ex_entry =
     RawSource (''@import '' @ [CHR 0x22] @ ''/foo/sub/dir/styles-1.css'' @ [CHR 0x22] @ '';'' @
                [CHR 0x0A] @
                ''@import '' @ [CHR 0x22] @ ''/foo/sub/dir/styles-2.css'' @ [CHR 0x22] @ '';'')"
    using two [OF import_statement_form [OF n, of "ex_compilation\<lparr>publicPath := Some ''/foo/''\<rparr>"]]
    by (simp add: ex_entry_chunks ex_compilation_def suffix_def)
  have c: "importsFile (outputPublicPath (ex_compilation\<lparr>publicPath := Some ''./''\<rparr>)) ex_entry =
     RawSource (''@import '' @ [CHR 0x22] @ ''./styles-1.css'' @ [CHR 0x22] @ '';'' @
                [CHR 0x0A] @
                ''@import '' @ [CHR 0x22] @ ''./styles-2.css'' @ [CHR 0x22] @ '';'')"
    using two [OF import_statement_form [OF n, of "ex_compilation\<lparr>publicPath := Some ''./''\<rparr>"]]
    by (simp add: ex_entry_chunks ex_compilation_def suffix_def)
  have d: "importsFile (outputPublicPath (ex_compilation\<lparr>publicPath := None\<rparr>)) ex_entry =
     RawSource (''@import '' @ [CHR 0x22] @ ''./styles-1.css'' @ [CHR 0x22] @ '';'' @
                [CHR 0x0A] @
                ''@import '' @ [CHR 0x22] @ ''./styles-2.css'' @ [CHR 0x22] @ '';'')"
    using two [OF import_statement_form [OF n, of "ex_compilation\<lparr>publicPath := None\<rparr>"]]
    by (simp add: ex_entry_chunks ex_compilation_def suffix_def)
  from a b c d show ?thesis
    by blast
qed

section \<open>The parts of a split\<close>

text \<open>
  Claim C6, as the code has it. For the plugin constructed with a file name template, part \<open>i\<close>
  of the entry of an asset holds segment \<open>i\<close>. Its name is the interpolated template
  in which every \<^verbatim>\<open>[part]\<close> is replaced by the number \<open>i + 1\<close> in decimal digits
  without a leading zero: when the interpolated template is a list of pieces free
  of \<^verbatim>\<open>[part]\<close> with \<^verbatim>\<open>[part]\<close> between them, the name is the same pieces with
  that numeral between them. Its full name is the name behind the directory of the
  asset and a slash when the directory is neither empty nor \<^verbatim>\<open>.\<close>, and the name
  itself otherwise. When there is more than one segment, the file list of a chunk
  that lists the asset is, at the end of the entry, the old list (without the first
  occurrence of the original name unless the original is preserved), then the full
  names of the parts in part order, then the name of the imports file if one is
  stored. The asset table then holds part \<open>i\<close> under its full name provided that no
  later part has the same full name, that the full name is not the name of the
  original asset unless the original is preserved, and that the imports file is not
  stored under that name.
\<close>

theorem part_names_and_registration:
  assumes "plugin_constructor ext args = Inr opts"
    and "template = (case arg_filename args of None \<Rightarrow> ''[name]-[part].[ext]'' | Some t \<Rightarrow> t)"
    and "plugin_file ext opts key (Some s) = Inr e"
    and "segs = ext_split ext (source_of s) (opt_size opts)"
    and "interpolated = ext_interpolateName ext ''/'' (''/'' @ key) template (source_of s)"
  shows "length (chunks e) = length segs \<and>
         (\<forall>i<length segs.
            rawValue (chunks e ! i) = segs ! i \<and>
            name (chunks e ! i) = replacePart (string_of_nat (i + 1)) interpolated \<and>
            nat_of_string (string_of_nat (i + 1)) = i + 1 \<and>
            set (string_of_nat (i + 1)) \<subseteq> set ''0123456789'' \<and>
            hd (string_of_nat (i + 1)) \<noteq> CHR ''0'' \<and>
            (\<forall>ps. ps \<noteq> [] \<and> (\<forall>p\<in>set ps. \<not> sublist ''[part]'' p) \<and>
                  interpolated = join ''[part]'' ps \<longrightarrow>
                  name (chunks e ! i) = join (string_of_nat (i + 1)) ps) \<and>
            fullname (chunks e ! i) =
              (if ext_dirname ext key \<noteq> [] \<and> ext_dirname ext key \<noteq> ''.''
               then ext_dirname ext key @ ''/'' @ name (chunks e ! i)
               else name (chunks e ! i))) \<and>
         (1 < length segs \<longrightarrow>
            (key \<in> set fs \<longrightarrow>
               snd (processEntry opts pp e (a, fs)) =
                 (if opt_preserve opts then fs else remove1 key fs) @
                 map fullname (chunks e) @
                 (case importsTarget opts pp e of None \<Rightarrow> [] | Some t \<Rightarrow> [t])) \<and>
            (\<forall>i<length segs.
               (\<forall>j<length segs. i < j \<longrightarrow> fullname (chunks e ! j) \<noteq> fullname (chunks e ! i)) \<and>
               (opt_preserve opts \<or> fullname (chunks e ! i) \<noteq> key) \<and>
               importsTarget opts pp e \<noteq> Some (fullname (chunks e ! i)) \<longrightarrow>
               fst (processEntry opts pp e (a, fs)) (fullname (chunks e ! i)) =
                 Some (Part (chunks e ! i))))"
proof -
  from assms(3) have e: "e = entryFor ext opts key (source_of s)"
    by (simp add: plugin_file_Inr)
  with assms(4) have len: "length (chunks e) = length segs"
    by (simp add: entryFor_simps)
  have fname: "opt_filename opts = nameInterpolator ext template"
    using constructor_Inr(2) [OF assms(1)] assms(2) by simp
  have nm: "name (chunks e ! i) = replacePart (string_of_nat (i + 1)) interpolated"
    if "i < length segs" for i
    using that e assms(4,5) fname
    by (simp add: entryFor_nth nameInterpolator_def del: string_of_nat.simps)
  have pieces: "name (chunks e ! i) = join (string_of_nat (i + 1)) ps"
    if "i < length segs" and "ps \<noteq> []" and "\<forall>p\<in>set ps. \<not> sublist ''[part]'' p"
      and "interpolated = join ''[part]'' ps" for i ps
    using nm [OF that(1)] that(4) replacePart_join [OF that(2,3)] by (simp only:)
  have rest: "rawValue (chunks e ! i) = segs ! i \<and>
      fullname (chunks e ! i) =
        (if ext_dirname ext key \<noteq> [] \<and> ext_dirname ext key \<noteq> ''.''
         then ext_dirname ext key @ ''/'' @ name (chunks e ! i)
         else name (chunks e ! i))"
    if "i < length segs" for i
    using that e assms(4) by (simp add: entryFor_nth withDirname_def)
  have dec: "nat_of_string (string_of_nat (i + 1)) = i + 1 \<and>
      set (string_of_nat (i + 1)) \<subseteq> set ''0123456789'' \<and>
      hd (string_of_nat (i + 1)) \<noteq> CHR ''0''" for i
    using string_of_nat_decimal [of "i + 1"] string_of_nat_digits [of "i + 1"]
      string_of_nat_no_leading_zero [of "i + 1"]
    by (simp del: string_of_nat.simps)
  have names: "\<forall>i<length segs.
            rawValue (chunks e ! i) = segs ! i \<and>
            name (chunks e ! i) = replacePart (string_of_nat (i + 1)) interpolated \<and>
            nat_of_string (string_of_nat (i + 1)) = i + 1 \<and>
            set (string_of_nat (i + 1)) \<subseteq> set ''0123456789'' \<and>
            hd (string_of_nat (i + 1)) \<noteq> CHR ''0'' \<and>
            (\<forall>ps. ps \<noteq> [] \<and> (\<forall>p\<in>set ps. \<not> sublist ''[part]'' p) \<and>
                  interpolated = join ''[part]'' ps \<longrightarrow>
                  name (chunks e ! i) = join (string_of_nat (i + 1)) ps) \<and>
            fullname (chunks e ! i) =
              (if ext_dirname ext key \<noteq> [] \<and> ext_dirname ext key \<noteq> ''.''
               then ext_dirname ext key @ ''/'' @ name (chunks e ! i)
               else name (chunks e ! i))"
    using nm pieces rest dec by blast
  have efile: "entry_file e = key"
    using e by (simp add: entryFor_simps)
  have list: "snd (processEntry opts pp e (a, fs)) =
                 (if opt_preserve opts then fs else remove1 key fs) @
                 map fullname (chunks e) @
                 (case importsTarget opts pp e of None \<Rightarrow> [] | Some t \<Rightarrow> [t])"
    if "1 < length segs" and "key \<in> set fs"
    using that len efile by (simp add: processEntry_files splice_original Let_def)
  have table: "fst (processEntry opts pp e (a, fs)) (fullname (chunks e ! i)) =
                 Some (Part (chunks e ! i))"
    if "1 < length segs" and "i < length segs"
      and later: "\<forall>j<length segs. i < j \<longrightarrow> fullname (chunks e ! j) \<noteq> fullname (chunks e ! i)"
      and orig: "opt_preserve opts \<or> fullname (chunks e ! i) \<noteq> key"
      and imp: "importsTarget opts pp e \<noteq> Some (fullname (chunks e ! i))" for i
  proof -
    from that(2) len have mem: "fullname (chunks e ! i) \<in> fullname ` set (chunks e)"
      by simp
    from that(2) later len
    have "last (filter (\<lambda>p. fullname p = fullname (chunks e ! i)) (chunks e)) = chunks e ! i"
      by (intro last_filter_no_later) simp_all
    with mem have "map_of (rev (map (\<lambda>p. (fullname p, Part p)) (chunks e)))
        (fullname (chunks e ! i)) = Some (Part (chunks e ! i))"
      by (simp add: map_of_parts_last)
    with that(1) len efile orig imp show ?thesis
      by (auto simp: processEntry_eq Let_def map_add_def split: option.splits)
  qed
  from len names list table show ?thesis
    by blast
qed

theorem part_names_and_registration_witness:
  "plugin_constructor ex_ext12 (ex_args\<lparr>arg_size := Some 1\<rparr>) = Inr (ex_options\<lparr>opt_size := 1\<rparr>) \<and>
   plugin_file ex_ext12 (ex_options\<lparr>opt_size := 1\<rparr>) ''sub/dir/styles.css''
     (Some (Source (concat (replicate 12 ''r{}'')) None)) = Inr ex_entry12 \<and>
   length (chunks ex_entry12) = 12 \<and>
   rawValue (chunks ex_entry12 ! 11) = ''r{}'' \<and>
   name (chunks ex_entry12 ! 0) = ''styles-1.css'' \<and>
   name (chunks ex_entry12 ! 11) = ''styles-12.css'' \<and>
   fullname (chunks ex_entry12 ! 11) = ''sub/dir/styles-12.css'' \<and>
   snd (processEntry (ex_options\<lparr>opt_size := 1\<rparr>) ''/foo'' ex_entry12
          (ex_assets, [''bundle.js'', ''sub/dir/styles.css''])) =
     [''bundle.js'', ''sub/dir/styles-1.css'', ''sub/dir/styles-2.css'', ''sub/dir/styles-3.css'', ''sub/dir/styles-4.css'', ''sub/dir/styles-5.css'', ''sub/dir/styles-6.css'',
      ''sub/dir/styles-7.css'', ''sub/dir/styles-8.css'', ''sub/dir/styles-9.css'', ''sub/dir/styles-10.css'', ''sub/dir/styles-11.css'', ''sub/dir/styles-12.css''] \<and>
   fst (processEntry (ex_options\<lparr>opt_size := 1\<rparr>) ''/foo'' ex_entry12
          (ex_assets, [''bundle.js'', ''sub/dir/styles.css''])) ''sub/dir/styles-1.css'' =
     Some (Part \<lparr>rawValue = ''r{}'', name = ''styles-1.css'',
                 fullname = ''sub/dir/styles-1.css''\<rparr>) \<and>
   fst (processEntry (ex_options\<lparr>opt_size := 1\<rparr>) ''/foo'' ex_entry12
          (ex_assets, [''bundle.js'', ''sub/dir/styles.css''])) ''sub/dir/styles-12.css'' =
     Some (Part \<lparr>rawValue = ''r{}'', name = ''styles-12.css'',
                 fullname = ''sub/dir/styles-12.css''\<rparr>)"
proof -
  let ?opts = "ex_options\<lparr>opt_size := 1\<rparr>"
  let ?src = "concat (replicate 12 ''r{}'')"
  let ?st = "(ex_assets, [''bundle.js'', ''sub/dir/styles.css''])"
  have c: "plugin_constructor ex_ext12 (ex_args\<lparr>arg_size := Some 1\<rparr>) = Inr ?opts"
    by (simp add: plugin_constructor_def normalizeImports_result ex_args_def ex_options_def
        ex_interpolator12)
  have t: "''[name]-[part].[ext]'' =
             (case arg_filename (ex_args\<lparr>arg_size := Some 1\<rparr>) of
                None \<Rightarrow> ''[name]-[part].[ext]'' | Some t \<Rightarrow> t)"
    by (simp add: ex_args_def)
  have f: "plugin_file ex_ext12 ?opts ''sub/dir/styles.css'' (Some (Source ?src None)) =
             Inr ex_entry12"
    by (simp add: plugin_file_Inr ex_entry12_def)
  have s: "replicate 12 ''r{}'' = ext_split ex_ext12 (source_of (Source ?src None)) (opt_size ?opts)"
    by (simp add: ex_ext12_def ex_split12_def)
  have i: "join ''[part]'' [''styles-'', ''.css''] =
             ext_interpolateName ex_ext12 ''/'' (''/'' @ ''sub/dir/styles.css'')
               ''[name]-[part].[ext]'' (source_of (Source ?src None))"
    by (simp add: ex_ext12_def ex_interpolateName_def)
  note T = part_names_and_registration
    [OF c t f s i, where a = ex_assets and fs = "[''bundle.js'', ''sub/dir/styles.css'']"
      and pp = "''/foo''"]
  have n: "1 < length (replicate 12 ''r{}'')"
    and i0: "0 < length (replicate 12 ''r{}'')"
    and i11: "11 < length (replicate 12 ''r{}'')"
    by simp_all
  have k: "''sub/dir/styles.css'' \<in> set [''bundle.js'', ''sub/dir/styles.css'']"
    by simp
  have ps: "[''styles-'', ''.css''] \<noteq> [] \<and>
      (\<forall>p\<in>set [''styles-'', ''.css'']. \<not> sublist ''[part]'' p) \<and>
      join ''[part]'' [''styles-'', ''.css''] = join ''[part]'' [''styles-'', ''.css'']"
    by (simp add: sublist_Cons_right)
  from T i0 ps have "name (chunks ex_entry12 ! 0) = join (string_of_nat (0 + 1)) [''styles-'', ''.css'']"
    by blast
  then have n0: "name (chunks ex_entry12 ! 0) = ''styles-1.css''"
    by (simp add: ex_numerals del: string_of_nat.simps)
  from T i11 ps have "name (chunks ex_entry12 ! 11) = join (string_of_nat (11 + 1)) [''styles-'', ''.css'']"
    by blast
  then have n11: "name (chunks ex_entry12 ! 11) = ''styles-12.css''"
    by (simp add: ex_numerals del: string_of_nat.simps)
  from T i11 have "rawValue (chunks ex_entry12 ! 11) = replicate 12 ''r{}'' ! 11 \<and>
      fullname (chunks ex_entry12 ! 11) =
        (if ext_dirname ex_ext12 ''sub/dir/styles.css'' \<noteq> [] \<and>
            ext_dirname ex_ext12 ''sub/dir/styles.css'' \<noteq> ''.''
         then ext_dirname ex_ext12 ''sub/dir/styles.css'' @ ''/'' @ name (chunks ex_entry12 ! 11)
         else name (chunks ex_entry12 ! 11))"
    by blast
  with n11 have r11: "rawValue (chunks ex_entry12 ! 11) = ''r{}''"
    and f11: "fullname (chunks ex_entry12 ! 11) = ''sub/dir/styles-12.css''"
    by (simp_all add: ex_ext12_def ex_dirname_def)
  from T have len: "length (chunks ex_entry12) = 12"
    by simp
  from T n k have "snd (processEntry ?opts ''/foo'' ex_entry12 ?st) =
        (if opt_preserve ?opts then [''bundle.js'', ''sub/dir/styles.css'']
         else remove1 ''sub/dir/styles.css'' [''bundle.js'', ''sub/dir/styles.css'']) @
        map fullname (chunks ex_entry12) @
        (case importsTarget ?opts ''/foo'' ex_entry12 of None \<Rightarrow> [] | Some t \<Rightarrow> [t])"
    by blast
  then have l: "snd (processEntry ?opts ''/foo'' ex_entry12 ?st) =
     [''bundle.js'', ''sub/dir/styles-1.css'', ''sub/dir/styles-2.css'', ''sub/dir/styles-3.css'', ''sub/dir/styles-4.css'', ''sub/dir/styles-5.css'', ''sub/dir/styles-6.css'',
      ''sub/dir/styles-7.css'', ''sub/dir/styles-8.css'', ''sub/dir/styles-9.css'', ''sub/dir/styles-10.css'', ''sub/dir/styles-11.css'', ''sub/dir/styles-12.css'']"
    by (simp add: importsTarget_def ex_entry12_chunks ex_options_def)
  have d: "distinct (map fullname (chunks ex_entry12))"
    by (simp add: ex_entry12_chunks)
  have later: "\<forall>j<length (replicate 12 ''r{}''). i < j \<longrightarrow>
      fullname (chunks ex_entry12 ! j) \<noteq> fullname (chunks ex_entry12 ! i)"
    if "i < 12" for i
    using that d len nth_eq_iff_index_eq [of "map fullname (chunks ex_entry12)"]
    by (auto simp del: distinct_map)
  have cond: "(\<forall>j<length (replicate 12 ''r{}''). i < j \<longrightarrow>
        fullname (chunks ex_entry12 ! j) \<noteq> fullname (chunks ex_entry12 ! i)) \<and>
      (opt_preserve ?opts \<or> fullname (chunks ex_entry12 ! i) \<noteq> ''sub/dir/styles.css'') \<and>
      importsTarget ?opts ''/foo'' ex_entry12 \<noteq> Some (fullname (chunks ex_entry12 ! i))"
    if "i = 0 \<or> i = 11" for i
  proof -
    from that have "i < 12"
      by auto
    from later [OF this] that show ?thesis
      by (auto simp: importsTarget_def ex_entry12_chunks ex_options_def)
  qed
  from T n i0 cond [of 0] have "fst (processEntry ?opts ''/foo'' ex_entry12 ?st)
      (fullname (chunks ex_entry12 ! 0)) = Some (Part (chunks ex_entry12 ! 0))"
    by blast
  then have m0: "fst (processEntry ?opts ''/foo'' ex_entry12 ?st) ''sub/dir/styles-1.css'' =
     Some (Part \<lparr>rawValue = ''r{}'', name = ''styles-1.css'',
                 fullname = ''sub/dir/styles-1.css''\<rparr>)"
    by (simp add: ex_entry12_chunks)
  from T n i11 cond [of 11] have "fst (processEntry ?opts ''/foo'' ex_entry12 ?st)
      (fullname (chunks ex_entry12 ! 11)) = Some (Part (chunks ex_entry12 ! 11))"
    by blast
  then have m11: "fst (processEntry ?opts ''/foo'' ex_entry12 ?st) ''sub/dir/styles-12.css'' =
     Some (Part \<lparr>rawValue = ''r{}'', name = ''styles-12.css'',
                 fullname = ''sub/dir/styles-12.css''\<rparr>)"
    by (simp add: ex_entry12_chunks)
  from c f len r11 n0 n11 f11 l m0 m11 show ?thesis
    by blast
qed

text \<open>
  Claim C6 as stated fails when the parts are not given names of their own. With
  \<^verbatim>\<open>filename: 'styles.css'\<close> both parts of the example stylesheet get the full name
  \<^verbatim>\<open>styles.css\<close>, the name of the original: the second part replaces the first, the
  removal of the original then deletes it, and at the end the asset table holds no
  part although the name was pushed twice.
\<close>

theorem part_registration_counterexample:
  "case plugin_constructor ex_ext (ex_args\<lparr>arg_filename := Some ''styles.css''\<rparr>) of
     Inl err \<Rightarrow> False
   | Inr opts \<Rightarrow>
       (case plugin_file ex_ext opts ''styles.css'' (assets ex_compilation ''styles.css'') of
          Inl err \<Rightarrow> False
        | Inr e \<Rightarrow>
            (case chunksMapping ex_ext opts ex_compilation ex_chunks of
               Inl err \<Rightarrow> False
             | Inr (cpl', cs') \<Rightarrow>
                 map rawValue (chunks e) = [''a{}b{}'', ''c{}''] \<and>
                 map fullname (chunks e) = [''styles.css'', ''styles.css''] \<and>
                 assets cpl' ''styles.css'' = None \<and>
                 files (cs' ! 0) = [''bundle.js'', ''styles.css'', ''styles.css'']))"
  by code_simp

section \<open>No imports file\<close>

text \<open>
  Claim C8. When the plugin was constructed with \<^verbatim>\<open>imports\<close> false or missing, no
  entry has a name for its imports file, so none is stored. After \<^verbatim>\<open>chunksMapping\<close>
  has processed all chunks, every object of the asset table is either the object the
  table had under that name before, or a part of a split into several segments under
  the full name of that part; and every name in the file list of a chunk is either a
  name the list had before or the full name of such a part.
\<close>

theorem no_imports_no_aggregation:
  assumes "plugin_constructor ext args = Inr opts"
    and "arg_imports args = None \<or> arg_imports args = Some (JBoolean False)"
    and "chunksMapping ext opts cpl cs = Inr (cpl', cs')"
  shows "(\<forall>pp e. importsTarget opts pp e = None) \<and>
         (\<forall>k v. assets cpl' k = Some v \<longrightarrow> assets cpl k = Some v \<or> splitPart ext opts k v) \<and>
         (\<forall>j<length cs. \<forall>n\<in>set (files (cs' ! j)).
            n \<in> set (files (cs ! j)) \<or> (\<exists>v. splitPart ext opts n v))"
proof -
  have none: "importsTarget opts pp e = None" for pp e
    by (rule importsTarget_false [OF constructor_imports_false [OF assms(1,2)]])
  note run = chunksMapping_Inr [OF assms(3)]
  let ?pp = "outputPublicPath cpl"
  have table: "\<forall>k v. assets cpl' k = Some v \<longrightarrow> assets cpl k = Some v \<or> splitPart ext opts k v"
  proof (rule mapChunks_assets [OF run])
    fix key src b fs
    assume css: "isCSS key"
      and J: "\<forall>k v. b k = Some v \<longrightarrow> assets cpl k = Some v \<or> splitPart ext opts k v"
    show "\<forall>k v. fst (processEntry opts ?pp (entryFor ext opts key src) (b, fs)) k = Some v \<longrightarrow>
            assets cpl k = Some v \<or> splitPart ext opts k v"
    proof (intro allI impI)
      fix k v
      assume "fst (processEntry opts ?pp (entryFor ext opts key src) (b, fs)) k = Some v"
      from processEntry_no_imports_assets [OF none this] css J
      show "assets cpl k = Some v \<or> splitPart ext opts k v"
        unfolding splitPart_def by blast
    qed
  qed simp
  have lists: "\<forall>n\<in>set (files (cs' ! j)). n \<in> set (files (cs ! j)) \<or> (\<exists>v. splitPart ext opts n v)"
    if j: "j < length cs" for j
  proof -
    from mapChunks_nth [OF run j] obtain a1 a2 where
      c: "processChunk ext opts ?pp a1 (cs ! j) = Inr (a2, cs' ! j)"
      by blast
    show ?thesis
    proof (rule processChunk_files [OF c])
      fix key src b fs
      assume css: "isCSS key"
        and K: "\<forall>n\<in>set fs. n \<in> set (files (cs ! j)) \<or> (\<exists>v. splitPart ext opts n v)"
      show "\<forall>n\<in>set (snd (processEntry opts ?pp (entryFor ext opts key src) (b, fs))).
              n \<in> set (files (cs ! j)) \<or> (\<exists>v. splitPart ext opts n v)"
      proof
        fix n
        assume "n \<in> set (snd (processEntry opts ?pp (entryFor ext opts key src) (b, fs)))"
        from processEntry_no_imports_files [OF none this] css K
        show "n \<in> set (files (cs ! j)) \<or> (\<exists>v. splitPart ext opts n v)"
          unfolding splitPart_def by blast
      qed
    qed simp
  qed
  from none table lists show ?thesis
    by blast
qed

theorem no_imports_no_aggregation_witness:
  "plugin_constructor ex_ext ex_args = Inr (ex_options\<lparr>opt_size := 2\<rparr>) \<and>
   (case chunksMapping ex_ext (ex_options\<lparr>opt_size := 2\<rparr>) ex_compilation ex_chunks of
      Inl err \<Rightarrow> False
    | Inr (cpl', cs') \<Rightarrow>
        map files cs' = [[''bundle.js'', ''styles-1.css'', ''styles-2.css'']] \<and>
        assets cpl' ''bundle.js'' = assets ex_compilation ''bundle.js'' \<and>
        assets cpl' ''styles.css'' = None) \<and>
   (\<exists>v. splitPart ex_ext (ex_options\<lparr>opt_size := 2\<rparr>) ''styles-1.css'' v) \<and>
   (\<exists>v. splitPart ex_ext (ex_options\<lparr>opt_size := 2\<rparr>) ''styles-2.css'' v)"
proof -
  let ?opts = "ex_options\<lparr>opt_size := 2\<rparr>"
  have c: "plugin_constructor ex_ext ex_args = Inr ?opts"
    by (simp add: plugin_constructor_def normalizeImports_result ex_args_def ex_options_def)
  have i: "arg_imports ex_args = None \<or> arg_imports ex_args = Some (JBoolean False)"
    by (simp add: ex_args_def)
  have v: "case chunksMapping ex_ext ?opts ex_compilation ex_chunks of
      Inl err \<Rightarrow> False
    | Inr (cpl', cs') \<Rightarrow>
        map files cs' = [[''bundle.js'', ''styles-1.css'', ''styles-2.css'']] \<and>
        assets cpl' ''bundle.js'' = assets ex_compilation ''bundle.js'' \<and>
        assets cpl' ''styles.css'' = None"
    by code_simp
  then obtain cpl' cs' where
    r: "chunksMapping ex_ext ?opts ex_compilation ex_chunks = Inr (cpl', cs')"
    and l: "map files cs' = [[''bundle.js'', ''styles-1.css'', ''styles-2.css'']]"
    by (auto split: sum.splits)
  from l have l0: "files (cs' ! 0) = [''bundle.js'', ''styles-1.css'', ''styles-2.css'']"
    by (cases cs') auto
  from no_imports_no_aggregation [OF c i r]
  have "\<forall>n\<in>set (files (cs' ! 0)).
          n \<in> set (files (ex_chunks ! 0)) \<or> (\<exists>v. splitPart ex_ext ?opts n v)"
    by (simp add: ex_chunks_def)
  with l0 have "(\<exists>v. splitPart ex_ext ?opts ''styles-1.css'' v) \<and>
                (\<exists>v. splitPart ex_ext ?opts ''styles-2.css'' v)"
    by (simp add: ex_chunks_def)
  with c v show ?thesis
    by simp
qed

section \<open>Assets that are not stylesheets\<close>

text \<open>
  Claim C10, as the code has it. A name ends with \<^verbatim>\<open>.css\<close> exactly when \<open>isCSS\<close>
  holds of it, and the entries that \<^verbatim>\<open>chunksMapping\<close> processes for a chunk are those
  of the names of its file list that end with \<^verbatim>\<open>.css\<close>, in the order of the list.
  A name that does not end with \<^verbatim>\<open>.css\<close>, and that is neither the full name of a
  part nor the name of an imports file of any stylesheet, holds the same object in the
  asset table after the run as before, and stays in the file list of every chunk that
  listed it.
\<close>

theorem other_assets_unchanged:
  assumes "chunksMapping ext opts cpl cs = Inr (cpl', cs')"
  shows "isCSS nm = suffix ''.css'' nm \<and>
         (\<forall>j<length cs. \<exists>a1 a2 es.
            map entry_file es = filter (suffix ''.css'') (files (cs ! j)) \<and>
            fold (processEntry opts (outputPublicPath cpl)) es (a1, files (cs ! j)) =
              (a2, files (cs' ! j))) \<and>
         (\<not> isCSS k \<and> notGenerated ext opts k \<longrightarrow>
            assets cpl' k = assets cpl k \<and>
            (\<forall>j<length cs. k \<in> set (files (cs ! j)) \<longrightarrow> k \<in> set (files (cs' ! j))))"
proof -
  note run = chunksMapping_Inr [OF assms]
  let ?pp = "outputPublicPath cpl"
  have css: "isCSS = suffix ''.css''"
    by (rule ext) (rule isCSS_iff_suffix)
  have selected: "\<exists>a1 a2 es.
            map entry_file es = filter (suffix ''.css'') (files (cs ! j)) \<and>
            fold (processEntry opts ?pp) es (a1, files (cs ! j)) = (a2, files (cs' ! j))"
    if j: "j < length cs" for j
  proof -
    from mapChunks_nth [OF run j] obtain a1 a2 where
      c: "processChunk ext opts ?pp a1 (cs ! j) = Inr (a2, cs' ! j)"
      by blast
    from processChunk_Inr [OF c] obtain es where
      es: "list_all2 (\<lambda>nm e. \<exists>s. a1 nm = Some s \<and> e = entryFor ext opts nm (source_of s))
             (filter isCSS (files (cs ! j))) es"
      and fold: "fold (processEntry opts ?pp) es (a1, files (cs ! j)) = (a2, files (cs' ! j))"
      by blast
    from entries_files [OF es] css fold show ?thesis
      by auto
  qed
  have table: "assets cpl' k = assets cpl k"
    if k: "\<not> isCSS k" "notGenerated ext opts k"
  proof (rule mapChunks_assets [OF run])
    fix key src b fs
    assume "isCSS key" and "b k = assets cpl k"
    with notGenerated_assets [OF k(2) \<open>isCSS key\<close>, where b = b and pp = ?pp and src = src and fs = fs] k(1)
    show "fst (processEntry opts ?pp (entryFor ext opts key src) (b, fs)) k = assets cpl k"
      by auto
  qed simp
  have listed: "k \<in> set (files (cs' ! j))"
    if k: "\<not> isCSS k" "notGenerated ext opts k" and j: "j < length cs"
      and mem: "k \<in> set (files (cs ! j))" for j
  proof -
    from mapChunks_nth [OF run j] obtain a1 a2 where
      c: "processChunk ext opts ?pp a1 (cs ! j) = Inr (a2, cs' ! j)"
      by blast
    from processChunk_other_name [OF c k] mem show ?thesis
      by (metis count_list_0_iff)
  qed
  from selected table listed show ?thesis
    by (simp add: isCSS_iff_suffix)
qed

theorem other_assets_unchanged_witness:
  "\<not> isCSS ''bundle.js'' \<and> isCSS ''styles.css'' \<and>
   notGenerated ex_ext (ex_options\<lparr>opt_size := 2\<rparr>) ''bundle.js'' \<and>
   (case chunksMapping ex_ext (ex_options\<lparr>opt_size := 2\<rparr>) ex_compilation ex_chunks of
      Inl err \<Rightarrow> False
    | Inr (cpl', cs') \<Rightarrow>
        assets cpl' ''bundle.js'' = assets ex_compilation ''bundle.js'' \<and>
        ''bundle.js'' \<in> set (files (cs' ! 0)))"
proof -
  let ?opts = "ex_options\<lparr>opt_size := 2\<rparr>"
  have js: "\<not> isCSS ''bundle.js''" and css: "isCSS ''styles.css''"
    by (simp_all add: isCSS_def)
  have n: "notGenerated ex_ext ?opts ''bundle.js''"
    by (rule ex_notGenerated) (simp_all add: ex_options_def)
  have "\<not> isl (chunksMapping ex_ext ?opts ex_compilation ex_chunks)"
    by code_simp
  then obtain cpl' cs' where
    r: "chunksMapping ex_ext ?opts ex_compilation ex_chunks = Inr (cpl', cs')"
    by (cases "chunksMapping ex_ext ?opts ex_compilation ex_chunks") auto
  have m: "''bundle.js'' \<in> set (files (ex_chunks ! 0))" and l: "0 < length ex_chunks"
    by (simp_all add: ex_chunks_def)
  from other_assets_unchanged [OF r, of "''styles.css''" "''bundle.js''"] js n m l
  have "assets cpl' ''bundle.js'' = assets ex_compilation ''bundle.js'' \<and>
        ''bundle.js'' \<in> set (files (cs' ! 0))"
    by blast
  with js css n r show ?thesis
    by simp
qed

text \<open>
  Claim C10 as stated fails for a name that the configuration generates. With
  \<^verbatim>\<open>imports: 'bundle.js'\<close> the imports file of the example stylesheet is stored
  under \<^verbatim>\<open>bundle.js\<close>, where the script was.
\<close>

theorem other_assets_counterexample:
  "\<not> isCSS ''bundle.js'' \<and>
   assets ex_compilation ''bundle.js'' = Some (Source ''js'' None) \<and>
   (case build ex_ext (ex_args\<lparr>arg_imports := Some (JString ''bundle.js'')\<rparr>)
           ex_compilation ex_chunks of
      Inl err \<Rightarrow> False
    | Inr (cpl', cs') \<Rightarrow>
        assets cpl' ''bundle.js'' =
          Some (RawSource
                 (publicImport ''/foo''
                    \<lparr>rawValue = ''a{}b{}'', name = ''styles-1.css'',
                     fullname = ''styles-1.css''\<rparr> @
                  [CHR 0x0A] @
                  publicImport ''/foo''
                    \<lparr>rawValue = ''c{}'', name = ''styles-2.css'',
                     fullname = ''styles-2.css''\<rparr>)))"
  by code_simp

section \<open>Preserving the original\<close>

text \<open>
  Claim C7, as the code has it. When \<^verbatim>\<open>preserve\<close> is true, the name of every
  stylesheet of a chunk is in the asset table and in the file list of that chunk
  after \<^verbatim>\<open>chunksMapping\<close> has run; and when the name is neither the full name of a
  part nor the name of an imports file of any stylesheet, the table holds under it the
  object it held before, so the content is the same.
\<close>

theorem preserved_original:
  assumes "chunksMapping ext opts cpl cs = Inr (cpl', cs')"
    and "opt_preserve opts"
    and "j < length cs" and "key \<in> set (files (cs ! j))" and "isCSS key"
  shows "assets cpl' key \<noteq> None \<and> key \<in> set (files (cs' ! j)) \<and>
         (notGenerated ext opts key \<longrightarrow> assets cpl' key = assets cpl key)"
proof -
  note run = chunksMapping_Inr [OF assms(1)]
  let ?pp = "outputPublicPath cpl"
  from mapChunks_nth [OF run assms(3)] obtain a1 a2 where
    c: "processChunk ext opts ?pp a1 (cs ! j) = Inr (a2, cs' ! j)"
    and rest: "mapChunks ext opts ?pp a2 (drop (Suc j) cs) = Inr (assets cpl', drop (Suc j) cs')"
    by blast
  from processChunk_Inr [OF c] obtain es where
    es: "list_all2 (\<lambda>nm e. \<exists>s. a1 nm = Some s \<and> e = entryFor ext opts nm (source_of s))
           (filter isCSS (files (cs ! j))) es"
    by blast
  from assms(4,5) have "key \<in> set (filter isCSS (files (cs ! j)))"
    by simp
  from list_all2_memD [OF es this] have "a1 key \<noteq> None"
    by auto
  have "a2 key \<noteq> None"
    by (rule processChunk_assets [OF c]) (simp_all add: processEntry_preserve_dom assms(2) \<open>a1 key \<noteq> None\<close>)
  have present: "assets cpl' key \<noteq> None"
    by (rule mapChunks_assets [OF rest]) (simp_all add: processEntry_preserve_dom assms(2) \<open>a2 key \<noteq> None\<close>)
  have listed: "key \<in> set (files (cs' ! j))"
    by (rule processChunk_files [OF c]) (simp_all add: processEntry_preserve_listed assms(2,4))
  have same: "assets cpl' key = assets cpl key" if n: "notGenerated ext opts key"
  proof (rule mapChunks_assets [OF run])
    fix k src b fs
    assume "isCSS k" and "b key = assets cpl key"
    with notGenerated_assets [OF n \<open>isCSS k\<close>, where b = b and pp = ?pp and src = src and fs = fs]
      assms(2)
    show "fst (processEntry opts ?pp (entryFor ext opts k src) (b, fs)) key = assets cpl key"
      by simp
  qed simp
  from present listed same show ?thesis
    by blast
qed

theorem preserved_original_witness:
  "plugin_constructor ex_ext (ex_args\<lparr>arg_preserve := True\<rparr>) =
     Inr (ex_options\<lparr>opt_size := 2, opt_preserve := True\<rparr>) \<and>
   isCSS ''styles.css'' \<and>
   notGenerated ex_ext (ex_options\<lparr>opt_size := 2, opt_preserve := True\<rparr>) ''styles.css'' \<and>
   (case chunksMapping ex_ext (ex_options\<lparr>opt_size := 2, opt_preserve := True\<rparr>)
           ex_compilation ex_chunks of
      Inl err \<Rightarrow> False
    | Inr (cpl', cs') \<Rightarrow>
        assets cpl' ''styles.css'' = Some (Source ''a{}b{}c{}'' (Some ''map'')) \<and>
        ''styles.css'' \<in> set (files (cs' ! 0)))"
proof -
  let ?opts = "ex_options\<lparr>opt_size := 2, opt_preserve := True\<rparr>"
  have c: "plugin_constructor ex_ext (ex_args\<lparr>arg_preserve := True\<rparr>) = Inr ?opts"
    by (simp add: plugin_constructor_def normalizeImports_result ex_args_def ex_options_def)
  have css: "isCSS ''styles.css''"
    by (simp add: isCSS_def)
  have n: "notGenerated ex_ext ?opts ''styles.css''"
    by (rule ex_notGenerated) (simp_all add: ex_options_def)
  have "\<not> isl (chunksMapping ex_ext ?opts ex_compilation ex_chunks)"
    by code_simp
  then obtain cpl' cs' where
    r: "chunksMapping ex_ext ?opts ex_compilation ex_chunks = Inr (cpl', cs')"
    by (cases "chunksMapping ex_ext ?opts ex_compilation ex_chunks") auto
  have p: "opt_preserve ?opts" and l: "0 < length ex_chunks"
    and m: "''styles.css'' \<in> set (files (ex_chunks ! 0))"
    by (simp_all add: ex_chunks_def)
  from preserved_original [OF r p l m css] n
  have "assets cpl' ''styles.css'' = assets ex_compilation ''styles.css'' \<and>
        ''styles.css'' \<in> set (files (cs' ! 0))"
    by blast
  with c css n r show ?thesis
    by (simp add: ex_compilation_def ex_assets_def)
qed

text \<open>
  Claim C7 as stated fails when a generated name is the original name. With
  \<^verbatim>\<open>preserve: true\<close> and \<^verbatim>\<open>imports: 'styles.css'\<close> the imports file is stored
  under the name of the example stylesheet, whose content is then the two import
  statements.
\<close>

theorem preserved_original_counterexample:
  "assets ex_compilation ''styles.css'' = Some (Source ''a{}b{}c{}'' (Some ''map'')) \<and>
   (case build ex_ext (ex_args\<lparr>arg_imports := Some (JString ''styles.css''),
                               arg_preserve := True\<rparr>) ex_compilation ex_chunks of
      Inl err \<Rightarrow> False
    | Inr (cpl', cs') \<Rightarrow>
        assets cpl' ''styles.css'' =
          Some (RawSource
                 (publicImport ''/foo''
                    \<lparr>rawValue = ''a{}b{}'', name = ''styles-1.css'',
                     fullname = ''styles-1.css''\<rparr> @
                  [CHR 0x0A] @
                  publicImport ''/foo''
                    \<lparr>rawValue = ''c{}'', name = ''styles-2.css'',
                     fullname = ''styles-2.css''\<rparr>)) \<and>
        map_option source_of (assets cpl' ''styles.css'') \<noteq> Some ''a{}b{}c{}'')"
  by code_simp

section \<open>Removing the original\<close>

text \<open>
  Claim C2, as the code has it. Let \<^verbatim>\<open>preserve\<close> be false, and let a stylesheet
  of the file list of a chunk hold in the asset table a text whose split gives more
  than one segment, and have a name that is neither the full name of a part nor the
  name of an imports file of any stylesheet. After \<^verbatim>\<open>chunksMapping\<close> has run, the
  asset table has no entry under that name and the file list of the chunk does not
  contain it.
\<close>

theorem original_removed:
  assumes "chunksMapping ext opts cpl cs = Inr (cpl', cs')"
    and "\<not> opt_preserve opts"
    and "j < length cs" and "key \<in> set (files (cs ! j))" and "isCSS key"
    and "assets cpl key = Some s"
    and "1 < length (ext_split ext (source_of s) (opt_size opts))"
    and "notGenerated ext opts key"
  shows "assets cpl' key = None \<and> key \<notin> set (files (cs' ! j))"
proof -
  note run = chunksMapping_Inr [OF assms(1)]
  let ?pp = "outputPublicPath cpl"
  from mapChunks_nth [OF run assms(3)] obtain a1 a2 where
    before: "mapChunks ext opts ?pp (assets cpl) (take j cs) = Inr (a1, take j cs')"
    and c: "processChunk ext opts ?pp a1 (cs ! j) = Inr (a2, cs' ! j)"
    and rest: "mapChunks ext opts ?pp a2 (drop (Suc j) cs) = Inr (assets cpl', drop (Suc j) cs')"
    by blast
  have frame: "fst (processEntry opts ?pp (entryFor ext opts k src) (b, fs)) key =
      (if key = k \<and> 1 < length (ext_split ext src (opt_size opts)) \<and> \<not> opt_preserve opts
       then None else b key)" if "isCSS k" for k src b fs
    by (rule notGenerated_assets [OF assms(8) that])
  have "a1 key = assets cpl key \<or> a1 key = None"
    by (rule mapChunks_assets [OF before]) (simp_all add: frame)
  moreover have "a1 key \<noteq> None"
  proof -
    from processChunk_Inr [OF c] obtain es where
      es: "list_all2 (\<lambda>nm e. \<exists>s. a1 nm = Some s \<and> e = entryFor ext opts nm (source_of s))
             (filter isCSS (files (cs ! j))) es"
      by blast
    from assms(4,5) have "key \<in> set (filter isCSS (files (cs ! j)))"
      by simp
    from list_all2_memD [OF es this] show ?thesis
      by auto
  qed
  ultimately have "a1 key = Some s"
    using assms(6) by auto
  from processChunk_removes_original [OF c assms(2,4,5) this assms(7,8)]
  have a2: "a2 key = None" and gone: "key \<notin> set (files (cs' ! j))"
    by simp_all
  have "assets cpl' key = None"
    by (rule mapChunks_assets [OF rest]) (simp_all add: frame a2)
  with gone show ?thesis
    by simp
qed

theorem original_removed_witness:
  "plugin_constructor ex_ext ex_args = Inr (ex_options\<lparr>opt_size := 2\<rparr>) \<and>
   ''styles.css'' \<in> set (files (ex_chunks ! 0)) \<and>
   assets ex_compilation ''styles.css'' = Some (Source ''a{}b{}c{}'' (Some ''map'')) \<and>
   length (ext_split ex_ext ''a{}b{}c{}'' 2) = 2 \<and>
   notGenerated ex_ext (ex_options\<lparr>opt_size := 2\<rparr>) ''styles.css'' \<and>
   (case chunksMapping ex_ext (ex_options\<lparr>opt_size := 2\<rparr>) ex_compilation ex_chunks of
      Inl err \<Rightarrow> False
    | Inr (cpl', cs') \<Rightarrow>
        assets cpl' ''styles.css'' = None \<and> ''styles.css'' \<notin> set (files (cs' ! 0)))"
proof -
  let ?opts = "ex_options\<lparr>opt_size := 2\<rparr>"
  have c: "plugin_constructor ex_ext ex_args = Inr ?opts"
    by (simp add: plugin_constructor_def normalizeImports_result ex_args_def ex_options_def)
  have css: "isCSS ''styles.css''"
    by (simp add: isCSS_def)
  have ng: "notGenerated ex_ext ?opts ''styles.css''"
    by (rule ex_notGenerated) (simp_all add: ex_options_def)
  have "\<not> isl (chunksMapping ex_ext ?opts ex_compilation ex_chunks)"
    by code_simp
  then obtain cpl' cs' where
    r: "chunksMapping ex_ext ?opts ex_compilation ex_chunks = Inr (cpl', cs')"
    by (cases "chunksMapping ex_ext ?opts ex_compilation ex_chunks") auto
  have p: "\<not> opt_preserve ?opts" and l: "0 < length ex_chunks"
    and m: "''styles.css'' \<in> set (files (ex_chunks ! 0))"
    and s: "assets ex_compilation ''styles.css'' = Some (Source ''a{}b{}c{}'' (Some ''map''))"
    and x: "length (ext_split ex_ext ''a{}b{}c{}'' 2) = 2"
    by (simp_all add: ex_chunks_def ex_options_def ex_compilation_def ex_assets_def
        ex_ext_def ex_split_def)
  have n: "1 < length (ext_split ex_ext (source_of (Source ''a{}b{}c{}'' (Some ''map'')))
                   (opt_size ?opts))"
    by (simp add: ex_ext_def ex_split_def)
  from original_removed [OF r p l m css s n ng]
  have "assets cpl' ''styles.css'' = None \<and> ''styles.css'' \<notin> set (files (cs' ! 0))" .
  with c m s x ng r show ?thesis
    by simp
qed

text \<open>
  Claim C2 as stated fails when the imports file takes the original name. With
  \<^verbatim>\<open>imports: true\<close> and \<^verbatim>\<open>preserve\<close> false the imports function returns the name of
  the asset: the example stylesheet is split in two, and after the build its name
  holds the imports file and is the last name of the file list.
\<close>

theorem original_removed_counterexample:
  "ex_split ''a{}b{}c{}'' 2 = [''a{}b{}'', ''c{}''] \<and>
   (case build ex_ext (ex_args\<lparr>arg_imports := Some (JBoolean True)\<rparr>)
           ex_compilation ex_chunks of
      Inl err \<Rightarrow> False
    | Inr (cpl', cs') \<Rightarrow>
        assets cpl' ''styles.css'' =
          Some (RawSource
                 (publicImport ''/foo''
                    \<lparr>rawValue = ''a{}b{}'', name = ''styles-1.css'',
                     fullname = ''styles-1.css''\<rparr> @
                  [CHR 0x0A] @
                  publicImport ''/foo''
                    \<lparr>rawValue = ''c{}'', name = ''styles-2.css'',
                     fullname = ''styles-2.css''\<rparr>)) \<and>
        map files cs' = [[''bundle.js'', ''styles-1.css'', ''styles-2.css'', ''styles.css'']])"
  by code_simp

end
